theory Spec2Isabelle
  imports Complex_Main "HOL-Library.Word"
begin

unbundle bit_operations_syntax

section \<open>Board and move model (src/app.ts, types and constants)\<close>

text \<open>
  The TypeScript types \<^verbatim>\<open>Color\<close>, \<^verbatim>\<open>Piece\<close>, \<^verbatim>\<open>Coords\<close>, \<^verbatim>\<open>Move\<close> and \<^verbatim>\<open>Board\<close>.
  \<^verbatim>\<open>Coords.r\<close> and \<^verbatim>\<open>Coords.c\<close> are the fields \<open>row\<close> and \<open>col\<close>; \<^verbatim>\<open>Move.from\<close> and
  \<^verbatim>\<open>Move.to\<close> are \<open>fromSq\<close> and \<open>toSq\<close>. Coordinates are JavaScript numbers that only ever
  hold integers; they are \<open>int\<close> here because the generators compute \<open>r + dr\<close> below zero
  before testing \<open>isInside\<close>.

  A \<^verbatim>\<open>Piece\<close> is a mutable object in the source. Every board the engine works on comes from
  \<^verbatim>\<open>createInitialBoard\<close>, \<^verbatim>\<open>placeSetupPiece\<close> or \<^verbatim>\<open>cloneBoard\<close>, which allocate one object
  per occupied square, so no two squares share a piece and a cell can hold the piece by
  value: setting \<^verbatim>\<open>piece.king\<close> is writing the changed piece into the cell that holds it.
\<close>

datatype Color = W | B

record Piece =
  color :: Color
  king :: bool

record Coords =
  row :: int
  col :: int

record Move =
  fromSq :: Coords
  toSq :: Coords
  captures :: "Coords list"

type_synonym Board = "Piece option list list"

abbreviation BOARD_SIZE :: int where
  "BOARD_SIZE \<equiv> 8"

definition WIN_SCORE :: int where
  "WIN_SCORE = 1000000"

definition DIRECTIONS :: "(int \<times> int) list" where
  "DIRECTIONS = [(-1, -1), (-1, 1), (1, -1), (1, 1)]"

text \<open>A board as the program builds it: eight rows of eight cells.\<close>

definition wf_board :: "Board \<Rightarrow> bool" where
  "wf_board b \<longleftrightarrow> length b = 8 \<and> list_all (\<lambda>cells. length cells = 8) b"

fun opposite :: "Color \<Rightarrow> Color" where
  "opposite W = B"
| "opposite B = W"

definition isInside :: "int \<Rightarrow> int \<Rightarrow> bool" where
  "isInside r c \<longleftrightarrow> r \<ge> 0 \<and> r < BOARD_SIZE \<and> c \<ge> 0 \<and> c < BOARD_SIZE"

definition isPlayableSquare :: "int \<Rightarrow> int \<Rightarrow> bool" where
  "isPlayableSquare r c \<longleftrightarrow> (r + c) mod 2 = 1"

text \<open>
  \<^verbatim>\<open>board[r][c]\<close>. Inside the board it is the cell. With the column outside, JavaScript
  yields \<^verbatim>\<open>undefined\<close>, which every reader tests like \<^verbatim>\<open>null\<close>: \<open>None\<close>. With the row
  outside, JavaScript raises a TypeError; the readers that are not guarded by \<open>isInside\<close>
  test the row first (\<open>rowInside\<close>) and return the error.
\<close>

definition cell :: "Board \<Rightarrow> int \<Rightarrow> int \<Rightarrow> Piece option" where
  "cell b r c = (if isInside r c then b ! nat r ! nat c else None)"

definition rowInside :: "int \<Rightarrow> bool" where
  "rowInside r \<longleftrightarrow> r \<ge> 0 \<and> r < BOARD_SIZE"

text \<open>\<^verbatim>\<open>board[r][c] = v\<close> for a square inside the board.\<close>

definition setCell :: "Board \<Rightarrow> int \<Rightarrow> int \<Rightarrow> Piece option \<Rightarrow> Board" where
  "setCell b r c v = (if isInside r c then b[nat r := (b ! nat r)[nat c := v]] else b)"

definition mkMove :: "int \<Rightarrow> int \<Rightarrow> int \<Rightarrow> int \<Rightarrow> Coords list \<Rightarrow> Move" where
  "mkMove r c tr tc caps =
     \<lparr>fromSq = \<lparr>row = r, col = c\<rparr>, toSq = \<lparr>row = tr, col = tc\<rparr>, captures = caps\<rparr>"

section \<open>Move generator\<close>

text \<open>
  The king's slide of \<^verbatim>\<open>getSimpleMovesForPiece\<close>:
  \<^verbatim>\<open>while (isInside(nr, nc) && !board[nr][nc]) { moves.push(...); nr += dr; nc += dc; }\<close>.
  Every entry of \<open>DIRECTIONS\<close> has \<open>dr \<noteq> 0\<close>; the test on \<open>dr\<close> is what makes the walk
  leave the board, and is true at every call.
\<close>

function slideMoves :: "Board \<Rightarrow> int \<Rightarrow> int \<Rightarrow> int \<Rightarrow> int \<Rightarrow> int \<Rightarrow> int \<Rightarrow> Move list" where
  "slideMoves b r c dr dc nr nc =
     (if isInside nr nc \<and> cell b nr nc = None \<and> dr \<noteq> 0
      then mkMove r c nr nc [] # slideMoves b r c dr dc (nr + dr) (nc + dc)
      else [])"
  by pat_completeness auto
termination
  by (relation "measure (\<lambda>(b, r, c, dr, dc, nr, nc). if dr > 0 then nat (8 - nr) else nat (nr + 1))")
     (auto simp: isInside_def)

definition getSimpleMovesForPiece :: "Board \<Rightarrow> int \<Rightarrow> int \<Rightarrow> Piece \<Rightarrow> Move list" where
  "getSimpleMovesForPiece b r c p =
     (if king p
      then concat (map (\<lambda>(dr, dc). slideMoves b r c dr dc (r + dr) (c + dc)) DIRECTIONS)
      else
        (let forward = (if color p = W then -1 else 1)
         in concat (map (\<lambda>dc.
              let nr = r + forward; nc = c + dc
              in if isInside nr nc \<and> cell b nr nc = None then [mkMove r c nr nc []] else [])
            [-1, 1])))"

definition getManCaptures :: "Board \<Rightarrow> int \<Rightarrow> int \<Rightarrow> Piece \<Rightarrow> Move list" where
  "getManCaptures b r c p =
     concat (map (\<lambda>(dr, dc).
       let mr = r + dr; mc = c + dc; tr = r + dr * 2; tc = c + dc * 2
       in if \<not> isInside mr mc \<or> \<not> isInside tr tc then []
          else (case cell b mr mc of
                  None \<Rightarrow> []
                | Some middle \<Rightarrow>
                    if color middle \<noteq> color p \<and> cell b tr tc = None
                    then [mkMove r c tr tc [\<lparr>row = mr, col = mc\<rparr>]]
                    else []))
       DIRECTIONS)"

text \<open>
  The scan of one diagonal in \<^verbatim>\<open>getKingCaptures\<close>; \<open>enemySquare\<close> is the loop's variable of
  that name, \<open>None\<close> until the first enemy piece is met.
\<close>

function kingCaptureScan ::
  "Board \<Rightarrow> int \<Rightarrow> int \<Rightarrow> Piece \<Rightarrow> int \<Rightarrow> int \<Rightarrow> int \<Rightarrow> int \<Rightarrow> Coords option \<Rightarrow> Move list" where
  "kingCaptureScan b r c p dr dc nr nc enemySquare =
     (if \<not> (isInside nr nc \<and> dr \<noteq> 0) then []
      else
        (case enemySquare of
           None \<Rightarrow>
             (case cell b nr nc of
                None \<Rightarrow> kingCaptureScan b r c p dr dc (nr + dr) (nc + dc) None
              | Some current \<Rightarrow>
                  if color current = color p then []
                  else kingCaptureScan b r c p dr dc (nr + dr) (nc + dc)
                         (Some \<lparr>row = nr, col = nc\<rparr>))
         | Some e \<Rightarrow>
             (case cell b nr nc of
                Some current \<Rightarrow> []
              | None \<Rightarrow>
                  mkMove r c nr nc [e]
                  # kingCaptureScan b r c p dr dc (nr + dr) (nc + dc) (Some e))))"
  by pat_completeness auto
termination
  by (relation "measure (\<lambda>(b, r, c, p, dr, dc, nr, nc, e).
                  if dr > 0 then nat (8 - nr) else nat (nr + 1))")
     (auto simp: isInside_def)

definition getKingCaptures :: "Board \<Rightarrow> int \<Rightarrow> int \<Rightarrow> Piece \<Rightarrow> Move list" where
  "getKingCaptures b r c p =
     concat (map (\<lambda>(dr, dc). kingCaptureScan b r c p dr dc (r + dr) (c + dc) None) DIRECTIONS)"

definition getCaptureMovesForPiece :: "Board \<Rightarrow> int \<Rightarrow> int \<Rightarrow> Piece \<Rightarrow> Move list" where
  "getCaptureMovesForPiece b r c p =
     (if king p then getKingCaptures b r c p else getManCaptures b r c p)"

text \<open>The squares in the order of the two nested \<^verbatim>\<open>for\<close> loops over \<open>r\<close> and \<open>c\<close>.\<close>

definition allSquares :: "(int \<times> int) list" where
  "allSquares = concat (map (\<lambda>r. map (\<lambda>c. (r, c)) [0..7]) [0..7])"

text \<open>
  One pass of the loop body of \<^verbatim>\<open>getLegalMoves\<close> over the accumulators
  \<open>(captureMoves, quietMoves, hasCaptures)\<close>.
\<close>

fun legalScanStep ::
  "Board \<Rightarrow> Color \<Rightarrow> Move list \<times> Move list \<times> bool \<Rightarrow> int \<times> int \<Rightarrow> Move list \<times> Move list \<times> bool" where
  "legalScanStep b side (captureMoves, quietMoves, hasCaptures) (r, c) =
     (case cell b r c of
        None \<Rightarrow> (captureMoves, quietMoves, hasCaptures)
      | Some p \<Rightarrow>
          if color p \<noteq> side then (captureMoves, quietMoves, hasCaptures)
          else
            (let caps = getCaptureMovesForPiece b r c p
             in if length caps > 0 then (captureMoves @ caps, quietMoves, True)
                else if \<not> hasCaptures
                then (captureMoves, quietMoves @ getSimpleMovesForPiece b r c p, hasCaptures)
                else (captureMoves, quietMoves, hasCaptures)))"

text \<open>
  \<^verbatim>\<open>getLegalMoves(board, color, pendingCapture)\<close>. The pending square the search passes is a
  move's landing square, inside the board. The source reads \<^verbatim>\<open>board[pendingCapture.r]\<close>
  without a test, so a pending square with its row outside the board raises a \<^verbatim>\<open>TypeError\<close>
  there; the list below is the result for a row on the board, which is what
  \<open>pendingRowInside\<close> states and what the theorems on an arbitrary pending square assume.
\<close>

definition getLegalMoves :: "Board \<Rightarrow> Color \<Rightarrow> Coords option \<Rightarrow> Move list" where
  "getLegalMoves b side pending =
     (case pending of
        Some pc \<Rightarrow>
          (case cell b (row pc) (col pc) of
             None \<Rightarrow> []
           | Some p \<Rightarrow>
               if color p \<noteq> side then []
               else getCaptureMovesForPiece b (row pc) (col pc) p)
      | None \<Rightarrow>
          (case foldl (legalScanStep b side) ([], [], False) allSquares of
             (captureMoves, quietMoves, hasCaptures) \<Rightarrow>
               if hasCaptures then captureMoves else quietMoves))"

text \<open>
  The pending square that \<open>getLegalMoves\<close> reads has its row on the board: the source indexes
  \<^verbatim>\<open>board[pendingCapture.r]\<close> without a test and raises a \<^verbatim>\<open>TypeError\<close> on a row outside.
\<close>

definition pendingRowInside :: "Coords option \<Rightarrow> bool" where
  "pendingRowInside pending \<longleftrightarrow>
     (case pending of None \<Rightarrow> True | Some pc \<Rightarrow> rowInside (row pc))"

section \<open>Position hashing\<close>

text \<open>
  \<^verbatim>\<open>createXorShift32(0x9e3779b9)\<close>: one call of the generator on its 32-bit state.
  JavaScript's \<^verbatim>\<open><<\<close> and \<^verbatim>\<open>^\<close> work on 32-bit integers and \<^verbatim>\<open>>>>= 0\<close> reads the result
  as unsigned, which is arithmetic on \<open>32 word\<close>.
\<close>

definition xorshift32Step :: "32 word \<Rightarrow> 32 word" where
  "xorshift32Step v =
     (let v1 = v XOR push_bit 13 v;
          v2 = v1 XOR drop_bit 17 v1;
          v3 = v2 XOR push_bit 5 v2
      in v3)"

text \<open>The value the generator returns at its \<open>k\<close>-th call, counted from 0.\<close>

definition zobristRand32 :: "nat \<Rightarrow> 32 word" where
  "zobristRand32 k = (xorshift32Step ^^ (Suc k)) 0x9e3779b9"

text \<open>
  \<^verbatim>\<open>random64(zobristRand32)\<close> at its \<open>j\<close>-th call: two draws, the first one in the high
  half. The bigint is below \<open>2 ^ 64\<close>, and so are all XORs of such values.
\<close>

definition random64 :: "nat \<Rightarrow> 64 word" where
  "random64 j = push_bit 32 (ucast (zobristRand32 (2 * j))) XOR ucast (zobristRand32 (2 * j + 1))"

text \<open>The tables, in the order the module draws them.\<close>

definition ZOBRIST_PIECES :: "nat \<Rightarrow> nat \<Rightarrow> 64 word" where
  "ZOBRIST_PIECES i k = random64 (4 * i + k)"

definition ZOBRIST_TURN_WHITE :: "64 word" where
  "ZOBRIST_TURN_WHITE = random64 256"

definition ZOBRIST_TURN_BLACK :: "64 word" where
  "ZOBRIST_TURN_BLACK = random64 257"

definition ZOBRIST_PENDING :: "nat \<Rightarrow> 64 word" where
  "ZOBRIST_PENDING i = random64 (258 + i)"

definition ZOBRIST_NO_PENDING :: "64 word" where
  "ZOBRIST_NO_PENDING = random64 322"

definition ZOBRIST_VARIANT_CLASSIC :: "64 word" where
  "ZOBRIST_VARIANT_CLASSIC = random64 323"

definition ZOBRIST_VARIANT_GIVEAWAY :: "64 word" where
  "ZOBRIST_VARIANT_GIVEAWAY = random64 324"

datatype Variant = Classic | Giveaway

definition boardIndex :: "int \<Rightarrow> int \<Rightarrow> nat" where
  "boardIndex r c = nat (r * BOARD_SIZE + c)"

definition pieceHashIndex :: "Piece \<Rightarrow> nat" where
  "pieceHashIndex p =
     (if color p = W then (if king p then 1 else 0) else (if king p then 3 else 2))"

definition pieceHash :: "int \<Rightarrow> int \<Rightarrow> Piece \<Rightarrow> 64 word" where
  "pieceHash r c p = ZOBRIST_PIECES (boardIndex r c) (pieceHashIndex p)"

definition computeBoardHash :: "Board \<Rightarrow> 64 word" where
  "computeBoardHash b =
     foldl (\<lambda>h (r, c). case cell b r c of None \<Rightarrow> h | Some p \<Rightarrow> h XOR pieceHash r c p)
       0 allSquares"

definition pendingCaptureHash :: "Coords option \<Rightarrow> 64 word" where
  "pendingCaptureHash pending =
     (case pending of
        None \<Rightarrow> ZOBRIST_NO_PENDING
      | Some pc \<Rightarrow> ZOBRIST_PENDING (boardIndex (row pc) (col pc)))"

definition variantHash :: "Variant \<Rightarrow> 64 word" where
  "variantHash v = (if v = Classic then ZOBRIST_VARIANT_CLASSIC else ZOBRIST_VARIANT_GIVEAWAY)"

section \<open>Applying and undoing a move\<close>

record GameNode =
  board :: Board
  hash :: "64 word"
  turn :: Color
  pendingCapture :: "Coords option"

text \<open>
  \<^verbatim>\<open>CapturedPieceUndo\<close> (fields \<^verbatim>\<open>r\<close>, \<^verbatim>\<open>c\<close>, \<^verbatim>\<open>piece\<close>) and \<^verbatim>\<open>AppliedMoveUndo\<close>.
  \<open>movedPiece\<close> is a reference in the source, to the object that stands on the landing
  square after the move; the token holds that object's value as the move leaves it.
\<close>

record CapturedPieceUndo =
  capturedRow :: int
  capturedCol :: int
  piece :: Piece

record AppliedMoveUndo =
  move :: Move
  movedPiece :: Piece
  wasKing :: bool
  captured :: "CapturedPieceUndo list"
  prevHash :: "64 word"
  prevTurn :: Color
  prevPendingCapture :: "Coords option"

text \<open>
  What the engine raises: the \<^verbatim>\<open>Error\<close> of \<open>applyMoveMutable\<close>, JavaScript's TypeError
  on reading a property of \<^verbatim>\<open>null\<close> or \<^verbatim>\<open>undefined\<close>, and \<^verbatim>\<open>SearchTimeoutError\<close>.
\<close>

datatype error = InvalidMoveSourceEmpty | TypeError | SearchTimeoutError

text \<open>
  The promotion test shared by \<open>executeMove\<close> and \<open>applyMoveMutable\<close>: a man that lands on
  row 0 (white) or row 7 (black) becomes a king.
\<close>

definition promoted :: "Piece \<Rightarrow> int \<Rightarrow> Piece" where
  "promoted p toRow =
     (if \<not> king p
      then (if (color p = W \<and> toRow = 0) \<or> (color p = B \<and> toRow = BOARD_SIZE - 1)
            then p\<lparr>king := True\<rparr> else p)
      else p)"

text \<open>
  \<^verbatim>\<open>executeMove(board, move)\<close>, the board it leaves and the error it raises, if any. With an
  empty source square the squares are cleared first and \<^verbatim>\<open>piece.king\<close> raises afterwards.
\<close>

definition executeMove :: "Board \<Rightarrow> Move \<Rightarrow> error option \<times> Board" where
  "executeMove b m =
     (if \<not> rowInside (row (fromSq m)) then (Some TypeError, b)
      else
        (let p = cell b (row (fromSq m)) (col (fromSq m));
             b1 = setCell b (row (fromSq m)) (col (fromSq m)) None;
             b2 = foldl (\<lambda>bd cs. setCell bd (row cs) (col cs) None) b1 (captures m);
             b3 = setCell b2 (row (toSq m)) (col (toSq m)) p
         in case p of
              None \<Rightarrow> (Some TypeError, b3)
            | Some pc \<Rightarrow>
                (None, setCell b3 (row (toSq m)) (col (toSq m))
                         (Some (promoted pc (row (toSq m)))))))"

text \<open>
  \<^verbatim>\<open>nextTurnState(board, turn, move)\<close>. With nothing on the landing square
  \<^verbatim>\<open>getCaptureMovesForPiece\<close> reads \<^verbatim>\<open>piece.king\<close> of \<^verbatim>\<open>null\<close>.
\<close>

definition nextTurnState :: "Board \<Rightarrow> Color \<Rightarrow> Move \<Rightarrow> error + Color \<times> Coords option" where
  "nextTurnState b t m =
     (if length (captures m) > 0
      then
        (case cell b (row (toSq m)) (col (toSq m)) of
           None \<Rightarrow> Inl TypeError
         | Some mp \<Rightarrow>
             (let followUps = getCaptureMovesForPiece b (row (toSq m)) (col (toSq m)) mp
              in if length followUps > 0
                 then Inr (t, Some \<lparr>row = row (toSq m), col = col (toSq m)\<rparr>)
                 else Inr (opposite t, None)))
      else Inr (opposite t, None))"

text \<open>
  The loop of \<open>applyMoveMutable\<close> over \<^verbatim>\<open>move.captures\<close>, on the board, the hash in progress
  and \<^verbatim>\<open>undo.captured\<close>.
\<close>

fun applyCaptures ::
  "Board \<Rightarrow> 64 word \<Rightarrow> CapturedPieceUndo list \<Rightarrow> Coords list
     \<Rightarrow> Board \<times> 64 word \<times> CapturedPieceUndo list" where
  "applyCaptures b h acc [] = (b, h, acc)"
| "applyCaptures b h acc (capturedSquare # rest) =
     (case cell b (row capturedSquare) (col capturedSquare) of
        None \<Rightarrow> applyCaptures b h acc rest
      | Some capturedPiece \<Rightarrow>
          applyCaptures
            (setCell b (row capturedSquare) (col capturedSquare) None)
            (h XOR pieceHash (row capturedSquare) (col capturedSquare) capturedPiece)
            (acc @ [\<lparr>capturedRow = row capturedSquare, capturedCol = col capturedSquare,
                      piece = capturedPiece\<rparr>])
            rest)"

text \<open>
  \<^verbatim>\<open>applyMoveMutable(node, move)\<close>: the node after the move and the undo token, or the error
  raised. The two raises on the source square come before any write. The capture squares
  and the landing square of a move are inside the board: the generator is the only code
  that builds a \<^verbatim>\<open>Move\<close>, and it tests \<open>isInside\<close> on each.
\<close>

definition applyMoveMutable :: "GameNode \<Rightarrow> Move \<Rightarrow> error + GameNode \<times> AppliedMoveUndo" where
  "applyMoveMutable n m =
     (if \<not> rowInside (row (fromSq m)) then Inl TypeError
      else
        (case cell (board n) (row (fromSq m)) (col (fromSq m)) of
           None \<Rightarrow> Inl InvalidMoveSourceEmpty
         | Some mp \<Rightarrow>
             (let h0 = hash n XOR pieceHash (row (fromSq m)) (col (fromSq m)) mp;
                  b1 = setCell (board n) (row (fromSq m)) (col (fromSq m)) None
              in case applyCaptures b1 h0 [] (captures m) of
                   (b2, h1, caps) \<Rightarrow>
                     (let mp' = promoted mp (row (toSq m));
                          b3 = setCell b2 (row (toSq m)) (col (toSq m)) (Some mp');
                          nextHash = h1 XOR pieceHash (row (toSq m)) (col (toSq m)) mp';
                          undo = \<lparr>move = m, movedPiece = mp', wasKing = king mp,
                                  captured = caps, prevHash = hash n, prevTurn = turn n,
                                  prevPendingCapture = pendingCapture n\<rparr>
                      in case nextTurnState b3 (turn n) m of
                           Inl e \<Rightarrow> Inl e
                         | Inr (t', pending') \<Rightarrow>
                             Inr (\<lparr>board = b3, hash = nextHash, turn = t',
                                    pendingCapture = pending'\<rparr>, undo)))))"

definition undoMoveMutable :: "GameNode \<Rightarrow> AppliedMoveUndo \<Rightarrow> GameNode" where
  "undoMoveMutable n undo =
     (let m = move undo;
          b1 = setCell (board n) (row (toSq m)) (col (toSq m)) None;
          b2 = setCell b1 (row (fromSq m)) (col (fromSq m))
                 (Some ((movedPiece undo)\<lparr>king := wasKing undo\<rparr>));
          b3 = foldl (\<lambda>bd cp. setCell bd (capturedRow cp) (capturedCol cp) (Some (piece cp)))
                 b2 (captured undo)
      in \<lparr>board = b3, hash = prevHash undo, turn = prevTurn undo,
          pendingCapture = prevPendingCapture undo\<rparr>)"

text \<open>\<^verbatim>\<open>nodeCacheKey(node)\<close>, with \<^verbatim>\<open>state.variant\<close> as a parameter.\<close>

definition nodeCacheKey :: "Variant \<Rightarrow> GameNode \<Rightarrow> 64 word" where
  "nodeCacheKey v n =
     hash n XOR (if turn n = W then ZOBRIST_TURN_WHITE else ZOBRIST_TURN_BLACK)
       XOR pendingCaptureHash (pendingCapture n) XOR variantHash v"

text \<open>
  The positions a search passes through from a root: it applies a legal move of the
  current node and keeps the undo token, or it undoes the move applied last.
\<close>

inductive searchReach :: "GameNode \<Rightarrow> GameNode \<times> AppliedMoveUndo list \<Rightarrow> bool"
  for n0 :: GameNode where
  start: "searchReach n0 (n0, [])"
| applied:
    "searchReach n0 (n, us) \<Longrightarrow>
     m \<in> set (getLegalMoves (board n) (turn n) (pendingCapture n)) \<Longrightarrow>
     applyMoveMutable n m = Inr (n', u) \<Longrightarrow>
     searchReach n0 (n', u # us)"
| undone:
    "searchReach n0 (n, u # us) \<Longrightarrow> searchReach n0 (undoMoveMutable n u, us)"

text \<open>
  The moves \<^verbatim>\<open>getLegalMoves\<close> considers for one square: the captures, and the steps, of the
  piece of \<open>side\<close> standing there (none for an empty square or a piece of the other side).
\<close>

definition captureMovesAt :: "Board \<Rightarrow> Color \<Rightarrow> int \<times> int \<Rightarrow> Move list" where
  "captureMovesAt b side sq =
     (case sq of (r, c) \<Rightarrow>
        (case cell b r c of
           None \<Rightarrow> []
         | Some p \<Rightarrow> if color p = side then getCaptureMovesForPiece b r c p else []))"

definition quietMovesAt :: "Board \<Rightarrow> Color \<Rightarrow> int \<times> int \<Rightarrow> Move list" where
  "quietMovesAt b side sq =
     (case sq of (r, c) \<Rightarrow>
        (case cell b r c of
           None \<Rightarrow> []
         | Some p \<Rightarrow> if color p = side then getSimpleMovesForPiece b r c p else []))"

section \<open>Positions used as examples\<close>

definition createEmptyBoard :: Board where
  "createEmptyBoard = replicate 8 (replicate 8 None)"

definition whiteMan :: Piece where
  "whiteMan = \<lparr>color = W, king = False\<rparr>"

definition blackMan :: Piece where
  "blackMan = \<lparr>color = B, king = False\<rparr>"

text \<open>A white man on (4,3) with a black man behind it on (5,4); (6,5) is empty.\<close>

definition boardBackwardCapture :: Board where
  "boardBackwardCapture =
     setCell (setCell createEmptyBoard 4 3 (Some whiteMan)) 5 4 (Some blackMan)"

text \<open>A white man on (4,3) and a black man far away on (1,4): nobody can capture.\<close>

definition boardQuiet :: Board where
  "boardQuiet = setCell (setCell createEmptyBoard 4 3 (Some whiteMan)) 1 4 (Some blackMan)"

section \<open>Notions used in the proofs\<close>

text \<open>
  What every generated move has: a piece of the side on its source square, an empty landing
  square inside the board, and at most one captured square, holding a piece of the other
  side.
\<close>

definition moveFits :: "Board \<Rightarrow> Color \<Rightarrow> Move \<Rightarrow> bool" where
  "moveFits b side m \<longleftrightarrow>
     (\<exists>p. cell b (row (fromSq m)) (col (fromSq m)) = Some p \<and> color p = side)
     \<and> isInside (row (toSq m)) (col (toSq m))
     \<and> cell b (row (toSq m)) (col (toSq m)) = None
     \<and> (captures m = []
        \<or> (\<exists>e q. captures m = [e] \<and> cell b (row e) (col e) = Some q \<and> color q \<noteq> side))"

text \<open>The Zobrist term of a cell: nothing for an empty one.\<close>

definition optHash :: "int \<Rightarrow> int \<Rightarrow> Piece option \<Rightarrow> 64 word" where
  "optHash r c v = (case v of None \<Rightarrow> 0 | Some p \<Rightarrow> pieceHash r c p)"

text \<open>Nodes over the example boards, built as \<open>chooseBestMove\<close> builds its root.\<close>

definition exampleNode :: GameNode where
  "exampleNode = \<lparr>board = boardBackwardCapture, hash = computeBoardHash boardBackwardCapture,
                   turn = W, pendingCapture = None\<rparr>"

definition exampleCapture :: Move where
  "exampleCapture = mkMove 4 3 6 5 [\<lparr>row = 5, col = 4\<rparr>]"

text \<open>
  The invariant of a search node, and of a node with the undo tokens still to be consumed:
  every node the tokens lead back to satisfies it as well.
\<close>

definition goodNode :: "GameNode \<Rightarrow> bool" where
  "goodNode n \<longleftrightarrow> wf_board (board n) \<and> hash n = computeBoardHash (board n)"

fun stackOk :: "GameNode \<Rightarrow> AppliedMoveUndo list \<Rightarrow> bool" where
  "stackOk n [] = goodNode n"
| "stackOk n (u # us) = (goodNode n \<and> stackOk (undoMoveMutable n u) us)"

text \<open>\<^verbatim>\<open>createInitialBoard()\<close>: black men on the dark squares of rows 0 to 2, white men on rows 5 to 7.\<close>

definition createInitialBoard :: Board where
  "createInitialBoard =
     (let b0 = createEmptyBoard;
          b1 = foldl (\<lambda>b (r, c). if isPlayableSquare r c
                                    then setCell b r c (Some \<lparr>color = B, king = False\<rparr>) else b)
                 b0 (concat (map (\<lambda>r. map (\<lambda>c. (r, c)) [0..7]) [0..2]));
          b2 = foldl (\<lambda>b (r, c). if isPlayableSquare r c
                                    then setCell b r c (Some \<lparr>color = W, king = False\<rparr>) else b)
                 b1 (concat (map (\<lambda>r. map (\<lambda>c. (r, c)) [0..7]) [5..7]))
      in b2)"



text \<open>
  A white man on (5,2) that can jump the black man on (4,3) and then, from (3,4), the one
  on (2,5).
\<close>

definition boardDoubleCapture :: Board where
  "boardDoubleCapture =
     setCell (setCell (setCell createEmptyBoard 5 2 (Some whiteMan)) 4 3 (Some blackMan))
       2 5 (Some blackMan)"

definition doubleNode :: GameNode where
  "doubleNode = \<lparr>board = boardDoubleCapture, hash = computeBoardHash boardDoubleCapture,
                  turn = W, pendingCapture = None\<rparr>"

definition firstJump :: Move where
  "firstJump = mkMove 5 2 3 4 [\<lparr>row = 4, col = 3\<rparr>]"

section \<open>Evaluation\<close>

definition isGiveawayVariant :: "Variant \<Rightarrow> bool" where
  "isGiveawayVariant v \<longleftrightarrow> v = Giveaway"

text \<open>
  \<^verbatim>\<open>terminalScore(sideToMove, perspectiveColor, depth)\<close>, with \<^verbatim>\<open>state.variant\<close> as a
  parameter.
\<close>

definition terminalScore :: "Variant \<Rightarrow> Color \<Rightarrow> Color \<Rightarrow> int \<Rightarrow> int" where
  "terminalScore v sideToMove perspectiveColor depth =
     (let perspectiveWins =
            (if isGiveawayVariant v then sideToMove = perspectiveColor
             else sideToMove \<noteq> perspectiveColor)
      in if perspectiveWins then WIN_SCORE - depth else - WIN_SCORE + depth)"

definition isPotentialVictim :: "Board \<Rightarrow> int \<Rightarrow> int \<Rightarrow> Color \<Rightarrow> bool" where
  "isPotentialVictim b r c victimColor =
     (let attackerColor = opposite victimColor
      in list_ex (\<lambda>(dr, dc).
           let attackerR = r - dr; attackerC = c - dc; landingR = r + dr; landingC = c + dc
           in if \<not> isInside attackerR attackerC \<or> \<not> isInside landingR landingC then False
              else (case cell b attackerR attackerC of
                      None \<Rightarrow> False
                    | Some attacker \<Rightarrow>
                        if color attacker \<noteq> attackerColor then False
                        else if cell b landingR landingC \<noteq> None then False
                        else True))
         DIRECTIONS)"

text \<open>The counters of \<^verbatim>\<open>evaluateGiveawayPosition\<close>, under the names of its local variables.\<close>

record GiveawayCounts =
  myMen :: int
  myKings :: int
  oppMen :: int
  oppKings :: int
  myProgress :: int
  oppProgress :: int
  myVictims :: int
  oppVictims :: int

definition giveawayScanStep ::
  "Board \<Rightarrow> Color \<Rightarrow> GiveawayCounts \<Rightarrow> int \<times> int \<Rightarrow> GiveawayCounts" where
  "giveawayScanStep b perspectiveColor a sq =
     (case sq of (r, c) \<Rightarrow>
        (case cell b r c of
           None \<Rightarrow> a
         | Some p \<Rightarrow>
             (let isMine = (color p = perspectiveColor);
                  a1 = (if king p
                        then (if isMine then a\<lparr>myKings := myKings a + 1\<rparr>
                              else a\<lparr>oppKings := oppKings a + 1\<rparr>)
                        else
                          (let progress = (if color p = W then BOARD_SIZE - 1 - r else r)
                           in if isMine
                              then a\<lparr>myMen := myMen a + 1, myProgress := myProgress a + progress\<rparr>
                              else a\<lparr>oppMen := oppMen a + 1,
                                     oppProgress := oppProgress a + progress\<rparr>))
              in if isPotentialVictim b r c (color p)
                 then (if isMine then a1\<lparr>myVictims := myVictims a1 + 1\<rparr>
                       else a1\<lparr>oppVictims := oppVictims a1 + 1\<rparr>)
                 else a1)))"

definition evaluateGiveawayPosition :: "GameNode \<Rightarrow> Color \<Rightarrow> Move list \<Rightarrow> int" where
  "evaluateGiveawayPosition n perspectiveColor legalMoves =
     (let a = foldl (giveawayScanStep (board n) perspectiveColor)
                \<lparr>myMen = 0, myKings = 0, oppMen = 0, oppKings = 0, myProgress = 0,
                 oppProgress = 0, myVictims = 0, oppVictims = 0\<rparr> allSquares;
          myPieces = myMen a + myKings a;
          oppPieces = oppMen a + oppKings a
      in if myPieces = 0 then WIN_SCORE
         else if oppPieces = 0 then - WIN_SCORE
         else
           (let s0 = (oppMen a - myMen a) * 170 + (oppKings a - myKings a) * 300
                       + (oppProgress a - myProgress a) * 8
                       + (myVictims a - oppVictims a) * 52;
                s1 = (if myMen a = 0 \<and> myKings a > 0 then s0 - myKings a * 34 else s0);
                s2 = (if oppMen a = 0 \<and> oppKings a > 0 then s1 + oppKings a * 34 else s1);
                mobility = int (length legalMoves) * 4
            in s2 + (if turn n = perspectiveColor then - mobility else mobility)))"

text \<open>
  The value of one piece in the classic loop of \<^verbatim>\<open>evaluatePosition\<close>.
\<close>

definition classicPieceValue :: "Board \<Rightarrow> int \<Rightarrow> int \<Rightarrow> Piece \<Rightarrow> int" where
  "classicPieceValue b r c p =
     (let v0 = (if king p then 320 else 120);
          v1 = (if \<not> king p
                then (let progress = (if color p = W then BOARD_SIZE - 1 - r else r);
                          homeRow = (if color p = W then BOARD_SIZE - 1 else 0)
                      in v0 + progress * 9 + (if r = homeRow then 10 else 0))
                else if r = 0 \<or> r = BOARD_SIZE - 1 \<or> c = 0 \<or> c = BOARD_SIZE - 1
                then v0 - 8 else v0);
          v2 = (if r \<ge> 2 \<and> r \<le> 5 \<and> c \<ge> 2 \<and> c \<le> 5 then v1 + 10 else v1);
          supportRow = (if color p = W then r + 1 else r - 1);
          sameColor = (\<lambda>q. case q of None \<Rightarrow> False | Some s \<Rightarrow> color s = color p)
      in if (isInside supportRow (c - 1) \<and> sameColor (cell b supportRow (c - 1)))
            \<or> (isInside supportRow (c + 1) \<and> sameColor (cell b supportRow (c + 1)))
         then v2 + 7 else v2)"

text \<open>One pass of the classic loop over \<open>(score, myCount, oppCount)\<close>.\<close>

definition classicScanStep ::
  "Board \<Rightarrow> Color \<Rightarrow> int \<times> int \<times> int \<Rightarrow> int \<times> int \<Rightarrow> int \<times> int \<times> int" where
  "classicScanStep b perspectiveColor acc sq =
     (case acc of (score, myCount, oppCount) \<Rightarrow>
        (case sq of (r, c) \<Rightarrow>
           (case cell b r c of
              None \<Rightarrow> (score, myCount, oppCount)
            | Some p \<Rightarrow>
                if color p = perspectiveColor
                then (score + classicPieceValue b r c p, myCount + 1, oppCount)
                else (score - classicPieceValue b r c p, myCount, oppCount + 1))))"

text \<open>
  \<^verbatim>\<open>evaluatePosition(node, perspectiveColor, legalMoves = null)\<close>, with \<^verbatim>\<open>state.variant\<close> as a
  parameter.
\<close>

definition evaluatePosition :: "Variant \<Rightarrow> GameNode \<Rightarrow> Color \<Rightarrow> Move list option \<Rightarrow> int" where
  "evaluatePosition v n perspectiveColor legalMoves =
     (let availableMoves =
            (case legalMoves of
               Some ms \<Rightarrow> ms
             | None \<Rightarrow> getLegalMoves (board n) (turn n) (pendingCapture n))
      in if length availableMoves = 0 then terminalScore v (turn n) perspectiveColor 0
         else if isGiveawayVariant v
         then evaluateGiveawayPosition n perspectiveColor availableMoves
         else
           (case foldl (classicScanStep (board n) perspectiveColor) (0, 0, 0) allSquares of
              (score, myCount, oppCount) \<Rightarrow>
                if myCount = 0 then (if isGiveawayVariant v then WIN_SCORE else - WIN_SCORE)
                else if oppCount = 0 then (if isGiveawayVariant v then - WIN_SCORE else WIN_SCORE)
                else
                  (let mobility = int (length availableMoves) * 3;
                       total = score + (if turn n = perspectiveColor then mobility else - mobility)
                   in if isGiveawayVariant v then - total else total)))"

text \<open>The number of pieces a side has on the board.\<close>

definition countPieces :: "Board \<Rightarrow> Color \<Rightarrow> nat" where
  "countPieces b side =
     length (filter (\<lambda>(r, c). case cell b r c of None \<Rightarrow> False | Some p \<Rightarrow> color p = side)
               allSquares)"

section \<open>Search\<close>

text \<open>
  The JavaScript numbers the search computes with: integers and the two infinities its
  bounds start from.
\<close>

datatype jsnum = NegInf | Fin int | PosInf

fun numLess :: "jsnum \<Rightarrow> jsnum \<Rightarrow> bool" where
  "numLess NegInf NegInf = False"
| "numLess NegInf _ = True"
| "numLess (Fin a) (Fin b) = (a < b)"
| "numLess (Fin a) PosInf = True"
| "numLess (Fin a) NegInf = False"
| "numLess PosInf _ = False"

definition numLe :: "jsnum \<Rightarrow> jsnum \<Rightarrow> bool" where
  "numLe a b \<longleftrightarrow> a = b \<or> numLess a b"

definition numMax :: "jsnum \<Rightarrow> jsnum \<Rightarrow> jsnum" where
  "numMax a b = (if numLess a b then b else a)"

definition numMin :: "jsnum \<Rightarrow> jsnum \<Rightarrow> jsnum" where
  "numMin a b = (if numLess b a then b else a)"

fun numSub :: "jsnum \<Rightarrow> int \<Rightarrow> jsnum" where
  "numSub NegInf x = NegInf"
| "numSub (Fin a) x = Fin (a - x)"
| "numSub PosInf x = PosInf"

datatype TTFlag = Exact | Lower | Upper

record TTEntry =
  depth :: nat
  score :: jsnum
  bestMove :: "Move option"
  flag :: TTFlag

text \<open>
  What a search call works on: the node it mutates, the transposition table, \<^verbatim>\<open>clock.nodes\<close>,
  and how many times \<^verbatim>\<open>Date.now()\<close> has been read. The clock itself is a parameter
  \<open>now\<close>: the value of the \<open>k\<close>-th read.
\<close>

record SearchState =
  node :: GameNode
  table :: "64 word \<rightharpoonup> TTEntry"
  nodes :: nat
  timeReads :: nat

definition sameMove :: "Move \<Rightarrow> Move \<Rightarrow> bool" where
  "sameMove a b \<longleftrightarrow>
     \<not> (row (fromSq a) \<noteq> row (fromSq b) \<or> col (fromSq a) \<noteq> col (fromSq b)
        \<or> row (toSq a) \<noteq> row (toSq b) \<or> col (toSq a) \<noteq> col (toSq b))
     \<and> length (captures a) = length (captures b)
     \<and> list_all2 (\<lambda>x y. \<not> (row x \<noteq> row y \<or> col x \<noteq> col y)) (captures a) (captures b)"

text \<open>
  \<^verbatim>\<open>moveOrderingScore\<close>; the distance from the centre point (3.5, 3.5) makes the score a
  multiple of one half.
\<close>

definition moveOrderingScore :: "Board \<Rightarrow> Move \<Rightarrow> rat" where
  "moveOrderingScore b m =
     (let s0 = of_nat (length (captures m)) * 1000
      in case cell b (row (fromSq m)) (col (fromSq m)) of
           None \<Rightarrow> s0
         | Some p \<Rightarrow>
             (let s1 = (if \<not> king p
                        then (let promotionRow = (if color p = W then 0 else BOARD_SIZE - 1)
                              in if row (toSq m) = promotionRow then s0 + 700 else s0)
                        else s0 + 70);
                  centerDistance = \<bar>7 / 2 - of_int (row (toSq m))\<bar> + \<bar>7 / 2 - of_int (col (toSq m))\<bar>
              in s1 + (40 - centerDistance * 5)))"

text \<open>
  \<^verbatim>\<open>orderMoves\<close>: \<^verbatim>\<open>Array.prototype.sort\<close> is stable, and so is \<open>sort_key\<close>; descending by score
  is ascending by the negated score.
\<close>

definition orderMoves :: "Board \<Rightarrow> Move list \<Rightarrow> Move option \<Rightarrow> Move list" where
  "orderMoves b moves preferredMove =
     (let scored = map (\<lambda>m.
            let s = moveOrderingScore b m
            in (m, (case preferredMove of
                      None \<Rightarrow> s
                    | Some pm \<Rightarrow> if sameMove m pm then s + 10000 else s)))
          moves
      in map fst (sort_key (\<lambda>entry. - snd entry) scored))"

text \<open>
  \<^verbatim>\<open>checkSearchDeadline(deadline, clock)\<close>: the error it raises, if any, and the state after.
\<close>

definition checkSearchDeadline ::
  "(nat \<Rightarrow> int) \<Rightarrow> int \<Rightarrow> SearchState \<Rightarrow> error option \<times> SearchState" where
  "checkSearchDeadline now deadline s =
     (let s1 = s\<lparr>nodes := nodes s + 1\<rparr>
      in if (nodes s1 AND 63) \<noteq> 0 then (None, s1)
         else
           (let t = now (timeReads s1); s2 = s1\<lparr>timeReads := timeReads s1 + 1\<rparr>
            in if t \<ge> deadline then (Some SearchTimeoutError, s2) else (None, s2)))"

text \<open>
  The transposition-table probe of \<open>minimax\<close>: the score to return at once, or the window
  and the preferred move to search with.
\<close>

definition probeTable ::
  "TTEntry option \<Rightarrow> nat \<Rightarrow> jsnum \<Rightarrow> jsnum \<Rightarrow> jsnum + jsnum \<times> jsnum \<times> Move option" where
  "probeTable cached d alpha beta =
     (case cached of
        None \<Rightarrow> Inr (alpha, beta, None)
      | Some e \<Rightarrow>
          if depth e \<ge> d
          then
            (if flag e = Exact then Inl (score e)
             else
               (let alpha' = (if flag e = Lower then numMax alpha (score e) else alpha);
                    beta' = (if flag e = Lower then beta
                             else if flag e = Upper then numMin beta (score e) else beta)
                in if numLe beta' alpha' then Inl (score e)
                   else Inr (alpha', beta', bestMove e)))
          else Inr (alpha, beta, bestMove e))"

text \<open>The update of \<open>bestScore\<close>, \<open>bestMove\<close>, \<open>alpha\<close> and \<open>beta\<close> after one child.\<close>

definition updateBest ::
  "bool \<Rightarrow> jsnum \<Rightarrow> Move \<Rightarrow> jsnum \<Rightarrow> Move option \<Rightarrow> jsnum \<Rightarrow> jsnum
     \<Rightarrow> jsnum \<times> Move option \<times> jsnum \<times> jsnum" where
  "updateBest maximizing childScore m bestScore bm alpha beta =
     (if maximizing
      then (let (bs, bm') = (if numLess bestScore childScore then (childScore, Some m)
                             else (bestScore, bm))
            in (bs, bm', numMax alpha bs, beta))
      else (let (bs, bm') = (if numLess childScore bestScore then (childScore, Some m)
                             else (bestScore, bm))
            in (bs, bm', alpha, numMin beta bs)))"

definition tableFlag :: "jsnum \<Rightarrow> jsnum \<Rightarrow> jsnum \<Rightarrow> TTFlag" where
  "tableFlag bestScore alphaOriginal betaOriginal =
     (if numLe bestScore alphaOriginal then Upper
      else if numLe betaOriginal bestScore then Lower
      else Exact)"

text \<open>
  \<^verbatim>\<open>minimax\<close> and its loop over the ordered moves. A raise is the \<open>Inl\<close> of the result; the
  state comes back with it, since \<^verbatim>\<open>finally\<close> has undone the move by then.
  \<open>minimaxMoves\<close> runs the children at depth \<open>d\<close>.
\<close>

fun minimax ::
  "Variant \<Rightarrow> (nat \<Rightarrow> int) \<Rightarrow> int \<Rightarrow> Color \<Rightarrow> nat \<Rightarrow> jsnum \<Rightarrow> jsnum \<Rightarrow> SearchState
     \<Rightarrow> (error + jsnum) \<times> SearchState"
and minimaxMoves ::
  "Variant \<Rightarrow> (nat \<Rightarrow> int) \<Rightarrow> int \<Rightarrow> Color \<Rightarrow> nat \<Rightarrow> bool \<Rightarrow> Move list \<Rightarrow> jsnum \<Rightarrow> jsnum
     \<Rightarrow> Move option \<Rightarrow> jsnum \<Rightarrow> SearchState
     \<Rightarrow> (error + jsnum \<times> Move option) \<times> SearchState" where
  "minimax v now deadline rootColor d alpha beta s =
     (case checkSearchDeadline now deadline s of
        (Some e, s1) \<Rightarrow> (Inl e, s1)
      | (None, s1) \<Rightarrow>
          (let legalMoves = getLegalMoves (board (node s1)) (turn (node s1))
                              (pendingCapture (node s1))
           in if length legalMoves = 0
              then (Inr (Fin (terminalScore v (turn (node s1)) rootColor (int d))), s1)
              else if d = 0
              then (Inr (Fin (evaluatePosition v (node s1) rootColor (Some legalMoves))), s1)
              else
                (let cacheKey = nodeCacheKey v (node s1)
                 in case probeTable (table s1 cacheKey) d alpha beta of
                      Inl cachedScore \<Rightarrow> (Inr cachedScore, s1)
                    | Inr (alpha1, beta1, preferredMove) \<Rightarrow>
                        (let maximizing = (turn (node s1) = rootColor);
                             ordered = orderMoves (board (node s1)) legalMoves preferredMove;
                             bestMove0 = (case ordered of [] \<Rightarrow> None | m # _ \<Rightarrow> Some m);
                             bestScore0 = (if maximizing then NegInf else PosInf)
                         in case minimaxMoves v now deadline rootColor (d - 1) maximizing
                                   ordered alpha1 beta1 bestMove0 bestScore0 s1 of
                              (Inl e, s2) \<Rightarrow> (Inl e, s2)
                            | (Inr (bestScore, bm), s2) \<Rightarrow>
                                (Inr bestScore,
                                 s2\<lparr>table := (table s2)(cacheKey \<mapsto>
                                      \<lparr>depth = d, score = bestScore, bestMove = bm,
                                       flag = tableFlag bestScore alpha beta\<rparr>)\<rparr>)))))"
| "minimaxMoves v now deadline rootColor d maximizing [] alpha beta bm bestScore s =
     (Inr (bestScore, bm), s)"
| "minimaxMoves v now deadline rootColor d maximizing (m # rest) alpha beta bm bestScore s =
     (case applyMoveMutable (node s) m of
        Inl e \<Rightarrow> (Inl e, s)
      | Inr (n', undo) \<Rightarrow>
          (case minimax v now deadline rootColor d alpha beta (s\<lparr>node := n'\<rparr>) of
             (Inl e, s') \<Rightarrow> (Inl e, s'\<lparr>node := undoMoveMutable (node s') undo\<rparr>)
           | (Inr childScore, s') \<Rightarrow>
               (let s'' = s'\<lparr>node := undoMoveMutable (node s') undo\<rparr>
                in case updateBest maximizing childScore m bestScore bm alpha beta of
                     (bestScore', bm', alpha', beta') \<Rightarrow>
                       if numLe beta' alpha' then (Inr (bestScore', bm'), s'')
                       else minimaxMoves v now deadline rootColor d maximizing rest
                              alpha' beta' bm' bestScore' s'')))"

datatype Difficulty = Easy | Medium | Hard

datatype SearchMode = Ai | Hint

record DifficultyConfig =
  maxDepth :: nat
  timeMs :: int
  randomChance :: rat
  noise :: int
  hintDepth :: nat
  hintTimeMs :: int

fun DIFFICULTIES :: "Difficulty \<Rightarrow> DifficultyConfig" where
  "DIFFICULTIES Easy = \<lparr>maxDepth = 4, timeMs = 260, randomChance = 22 / 100, noise = 120,
                          hintDepth = 6, hintTimeMs = 900\<rparr>"
| "DIFFICULTIES Medium = \<lparr>maxDepth = 6, timeMs = 750, randomChance = 5 / 100, noise = 24,
                            hintDepth = 8, hintTimeMs = 1600\<rparr>"
| "DIFFICULTIES Hard = \<lparr>maxDepth = 8, timeMs = 1500, randomChance = 0, noise = 0,
                          hintDepth = 9, hintTimeMs = 1500\<rparr>"

text \<open>
  The fields of the global \<^verbatim>\<open>state\<close> that the engine reads: \<^verbatim>\<open>state.board\<close>, \<^verbatim>\<open>state.turn\<close>,
  \<^verbatim>\<open>state.pendingCapture\<close>, \<^verbatim>\<open>state.variant\<close> and \<^verbatim>\<open>state.difficulty\<close>.
\<close>

record GameState =
  stateBoard :: Board
  stateTurn :: Color
  statePendingCapture :: "Coords option"
  stateVariant :: Variant
  stateDifficulty :: Difficulty

text \<open>
  The outside world of one \<open>chooseBestMove\<close> call: \<open>clockAt k\<close> is what the \<open>k\<close>-th read of
  \<^verbatim>\<open>Date.now()\<close> returns and \<open>randomAt k\<close> what the \<open>k\<close>-th call of \<^verbatim>\<open>Math.random()\<close> returns.
\<close>

record World =
  clockAt :: "nat \<Rightarrow> int"
  randomAt :: "nat \<Rightarrow> rat"

record SearchResult =
  resultMove :: "Move option"
  resultScore :: jsnum
  depthReached :: nat

text \<open>\<^verbatim>\<open>xs[Math.floor(x * xs.length)]\<close>; outside the array it is \<^verbatim>\<open>undefined\<close>.\<close>

definition pickAt :: "'a list \<Rightarrow> rat \<Rightarrow> 'a option" where
  "pickAt xs x =
     (let i = \<lfloor>x * of_nat (length xs)\<rfloor>
      in if 0 \<le> i \<and> nat i < length xs then Some (xs ! nat i) else None)"

text \<open>
  The loop of \<open>chooseBestMove\<close> over the root moves at one depth; the children are searched
  at depth \<open>d\<close>. It returns \<open>(depthBestMove, depthBestScore, depthScores)\<close>.
\<close>

fun searchRootMoves ::
  "Variant \<Rightarrow> (nat \<Rightarrow> int) \<Rightarrow> int \<Rightarrow> Color \<Rightarrow> nat \<Rightarrow> Move list \<Rightarrow> Move option \<Rightarrow> jsnum
     \<Rightarrow> (Move \<times> jsnum) list \<Rightarrow> SearchState
     \<Rightarrow> (error + Move option \<times> jsnum \<times> (Move \<times> jsnum) list) \<times> SearchState" where
  "searchRootMoves v now deadline side d [] depthBestMove depthBestScore depthScores s =
     (Inr (depthBestMove, depthBestScore, depthScores), s)"
| "searchRootMoves v now deadline side d (m # rest) depthBestMove depthBestScore depthScores s =
     (let t = now (timeReads s); s0 = s\<lparr>timeReads := timeReads s + 1\<rparr>
      in if t \<ge> deadline then (Inl SearchTimeoutError, s0)
         else
           (case applyMoveMutable (node s0) m of
              Inl e \<Rightarrow> (Inl e, s0)
            | Inr (n', undo) \<Rightarrow>
                (case minimax v now deadline side d NegInf PosInf (s0\<lparr>node := n'\<rparr>) of
                   (Inl e, s') \<Rightarrow> (Inl e, s'\<lparr>node := undoMoveMutable (node s') undo\<rparr>)
                 | (Inr sc, s') \<Rightarrow>
                     (let s'' = s'\<lparr>node := undoMoveMutable (node s') undo\<rparr>;
                          depthScores' = depthScores @ [(m, sc)]
                      in if numLess depthBestScore sc
                         then searchRootMoves v now deadline side d rest (Some m) sc
                                depthScores' s''
                         else searchRootMoves v now deadline side d rest depthBestMove
                                depthBestScore depthScores' s''))))"

text \<open>
  The iterative-deepening loop, from \<open>depth\<close> up to \<open>maxD\<close>, on the variables
  \<open>(bestMove, bestScore, depthReached, scoredAtDepth)\<close>. \<^verbatim>\<open>SearchTimeoutError\<close> ends the loop;
  any other error is thrown again.
\<close>

function deepen ::
  "Variant \<Rightarrow> (nat \<Rightarrow> int) \<Rightarrow> int \<Rightarrow> Color \<Rightarrow> Move list \<Rightarrow> nat \<Rightarrow> nat
     \<Rightarrow> Move option \<times> jsnum \<times> nat \<times> (Move \<times> jsnum) list \<Rightarrow> SearchState
     \<Rightarrow> error + Move option \<times> jsnum \<times> nat \<times> (Move \<times> jsnum) list" where
  "deepen v now deadline side legalMoves maxD d best s =
     (if \<not> d \<le> maxD then Inr best
      else
        (let t = now (timeReads s); s0 = s\<lparr>timeReads := timeReads s + 1\<rparr>
         in if t \<ge> deadline then Inr best
            else
              (let orderedRootMoves = orderMoves (board (node s0)) legalMoves (fst best);
                   depthBestMove = (case orderedRootMoves of [] \<Rightarrow> None | m # _ \<Rightarrow> Some m)
               in case searchRootMoves v now deadline side (d - 1) orderedRootMoves
                         depthBestMove NegInf [] s0 of
                    (Inl e, s1) \<Rightarrow> (if e = SearchTimeoutError then Inr best else Inl e)
                  | (Inr (bm, bs, depthScores), s1) \<Rightarrow>
                      deepen v now deadline side legalMoves maxD (d + 1)
                        (bm, bs, d, depthScores) s1)))"
  by pat_completeness auto

termination
  by (relation "measure (\<lambda>(v, now, deadline, side, legalMoves, maxD, d, best, s). Suc maxD - d)")
     auto

text \<open>
  \<^verbatim>\<open>chooseBestMove(side, mode)\<close> on the global state \<open>g\<close> in the world \<open>w\<close>.
\<close>

definition chooseBestMove :: "World \<Rightarrow> GameState \<Rightarrow> Color \<Rightarrow> SearchMode \<Rightarrow> error + SearchResult" where
  "chooseBestMove w g side mode =
     (let b = stateBoard g;
          root = \<lparr>board = b, hash = computeBoardHash b, turn = stateTurn g,
                  pendingCapture = statePendingCapture g\<rparr>;
          legalMoves = getLegalMoves (board root) (turn root) (pendingCapture root)
      in case legalMoves of
           [] \<Rightarrow>
             Inr \<lparr>resultMove = None,
                  resultScore = Fin (terminalScore (stateVariant g) (turn root) side 0),
                  depthReached = 0\<rparr>
         | firstMove # _ \<Rightarrow>
             if turn root \<noteq> side
             then Inr \<lparr>resultMove = None, resultScore = Fin (- WIN_SCORE), depthReached = 0\<rparr>
             else
               (let config = (if mode = Hint then DIFFICULTIES Hard
                              else DIFFICULTIES (stateDifficulty g));
                    drawn = (mode = Ai \<and> randomChance config > 0);
                    randomReads = (if drawn then 1 else 0 :: nat)
                in if drawn \<and> randomAt w 0 < randomChance config
                   then Inr \<lparr>resultMove = pickAt legalMoves (randomAt w 1),
                             resultScore = Fin 0, depthReached = 0\<rparr>
                   else
                     (let maxD = (if mode = Ai then maxDepth config else hintDepth config);
                          time = (if mode = Ai then timeMs config else hintTimeMs config);
                          deadline = clockAt w 0 + time;
                          s = \<lparr>node = root, table = Map.empty, nodes = 0, timeReads = 1\<rparr>
                      in case deepen (stateVariant g) (clockAt w) deadline side legalMoves maxD 1
                                (Some firstMove, NegInf, 0, [(firstMove, NegInf)]) s of
                           Inl e \<Rightarrow> Inl e
                         | Inr (bm, bs, reached, scoredAtDepth) \<Rightarrow>
                             if mode = Ai \<and> length scoredAtDepth > 1 \<and> noise config > 0
                             then
                               (let candidates =
                                      filter (\<lambda>entry. numLe (numSub bs (noise config)) (snd entry))
                                        scoredAtDepth
                                in if length candidates > 0
                                   then
                                     (case pickAt candidates (randomAt w randomReads) of
                                        None \<Rightarrow>
                                          Inl TypeError
                                      | Some picked \<Rightarrow>
                                          Inr \<lparr>resultMove = Some (fst picked),
                                               resultScore = snd picked,
                                               depthReached = reached\<rparr>)
                                   else Inr \<lparr>resultMove = bm, resultScore = bs,
                                             depthReached = reached\<rparr>)
                             else Inr \<lparr>resultMove = bm, resultScore = bs,
                                       depthReached = reached\<rparr>)))"

definition quietGiveawayNode :: GameNode where
  "quietGiveawayNode = \<lparr>board = boardQuiet, hash = computeBoardHash boardQuiet, turn = W,
                         pendingCapture = None\<rparr>"

text \<open>Only a white man, on (4,3), and black to move: black has no move.\<close>

definition boardLoneWhite :: Board where
  "boardLoneWhite = setCell createEmptyBoard 4 3 (Some whiteMan)"

definition terminalState :: SearchState where
  "terminalState =
     \<lparr>node = \<lparr>board = boardLoneWhite, hash = computeBoardHash boardLoneWhite, turn = B,
              pendingCapture = None\<rparr>,
      table = Map.empty, nodes = 0, timeReads = 0\<rparr>"

definition initialState :: "Color \<Rightarrow> GameState" where
  "initialState t = \<lparr>stateBoard = createInitialBoard, stateTurn = t, statePendingCapture = None,
                      stateVariant = Classic, stateDifficulty = Easy\<rparr>"

definition boardBlocked :: Board where
  "boardBlocked = setCell (setCell createEmptyBoard 1 0 (Some whiteMan)) 0 1 (Some blackMan)"

definition blockedNode :: GameNode where
  "blockedNode = \<lparr>board = boardBlocked, hash = computeBoardHash boardBlocked, turn = W,
                   pendingCapture = None\<rparr>"

definition loneNode :: GameNode where
  "loneNode = \<lparr>board = boardLoneWhite, hash = computeBoardHash boardLoneWhite, turn = W,
                pendingCapture = None\<rparr>"

definition stillWorld :: World where
  "stillWorld = \<lparr>clockAt = (\<lambda>k. 0), randomAt = (\<lambda>k. 0)\<rparr>"

definition onlyTimeout :: "error + 'a \<Rightarrow> bool" where
  "onlyTimeout r \<longleftrightarrow> (case r of Inl e \<Rightarrow> e = SearchTimeoutError | Inr x \<Rightarrow> True)"












definition noisyBoard :: Board where
  "noisyBoard = setCell (setCell createEmptyBoard 4 1 (Some whiteMan)) 0 5 (Some blackMan)"




definition stepEdge :: Move where
  "stepEdge = mkMove 4 1 3 0 []"

definition stepCentre :: Move where
  "stepCentre = mkMove 4 1 3 2 []"

section \<open>Properties of the move generator\<close>

declare slideMoves.simps [simp del] kingCaptureScan.simps [simp del]

lemma legalScanStep_eq:
  "legalScanStep b side (cm, qm, hc) sq =
     (cm @ captureMovesAt b side sq,
      (if \<not> hc \<and> captureMovesAt b side sq = [] then qm @ quietMovesAt b side sq else qm),
      hc \<or> captureMovesAt b side sq \<noteq> [])"
  by (cases sq) (simp add: captureMovesAt_def quietMovesAt_def Let_def split: option.splits)

lemma scan_captures:
  "fst (foldl (legalScanStep b side) (cm, qm, hc) sqs) =
     cm @ concat (map (captureMovesAt b side) sqs)"
  by (induction sqs arbitrary: cm qm hc) (simp_all add: legalScanStep_eq del: legalScanStep.simps)

lemma scan_has:
  "snd (snd (foldl (legalScanStep b side) (cm, qm, hc) sqs)) \<longleftrightarrow>
     hc \<or> concat (map (captureMovesAt b side) sqs) \<noteq> []"
  by (induction sqs arbitrary: cm qm hc) (simp_all add: legalScanStep_eq del: legalScanStep.simps)

lemma scan_quiet:
  "\<not> hc \<Longrightarrow> concat (map (captureMovesAt b side) sqs) = [] \<Longrightarrow>
   fst (snd (foldl (legalScanStep b side) (cm, qm, hc) sqs)) =
     qm @ concat (map (quietMovesAt b side) sqs)"
  by (induction sqs arbitrary: cm qm) (simp_all add: legalScanStep_eq del: legalScanStep.simps)

lemma getLegalMoves_None:
  "getLegalMoves b side None =
     (if concat (map (captureMovesAt b side) allSquares) \<noteq> []
      then concat (map (captureMovesAt b side) allSquares)
      else concat (map (quietMovesAt b side) allSquares))"
proof -
  obtain cm qm hc where f: "foldl (legalScanStep b side) ([], [], False) allSquares = (cm, qm, hc)"
    by (cases "foldl (legalScanStep b side) ([], [], False) allSquares") auto
  have cm: "cm = concat (map (captureMovesAt b side) allSquares)"
    using scan_captures [of b side "[]" "[]" False allSquares] f by simp
  have hc: "hc \<longleftrightarrow> concat (map (captureMovesAt b side) allSquares) \<noteq> []"
    using scan_has [of b side "[]" "[]" False allSquares] f by simp
  have qm: "\<not> hc \<Longrightarrow> qm = concat (map (quietMovesAt b side) allSquares)"
    using scan_quiet [of False b side allSquares "[]" "[]"] f hc by simp
  show ?thesis
    using cm hc qm by (simp add: getLegalMoves_def f)
qed

lemma kingCaptureScan_captures:
  "m \<in> set (kingCaptureScan b r c p dr dc nr nc e) \<Longrightarrow> captures m \<noteq> []"
proof (induction b r c p dr dc nr nc e rule: kingCaptureScan.induct)
  case (1 b r c p dr dc nr nc enemySquare)
  from "1.prems" show ?case
    apply (subst (asm) kingCaptureScan.simps)
    using "1.IH"
    apply (auto simp: mkMove_def split: if_splits option.splits)
    done
qed

lemma manCaptures_nonempty:
  "m \<in> set (getManCaptures b r c p) \<Longrightarrow> captures m \<noteq> []"
  by (auto simp: getManCaptures_def DIRECTIONS_def mkMove_def Let_def
      split: if_splits option.splits)

lemma captureMoves_nonempty:
  "m \<in> set (getCaptureMovesForPiece b r c p) \<Longrightarrow> captures m \<noteq> []"
  by (auto simp: getCaptureMovesForPiece_def getKingCaptures_def
      dest: kingCaptureScan_captures manCaptures_nonempty split: if_splits)

lemma captureMovesAt_nonempty:
  "m \<in> set (captureMovesAt b side sq) \<Longrightarrow> captures m \<noteq> []"
  by (cases sq)
     (auto simp: captureMovesAt_def dest: captureMoves_nonempty split: option.splits if_splits)

text \<open>
  C1 (mandatory capture). With no pending capture: if some piece of the side to move has a
  capture, \<open>getLegalMoves\<close> returns the capture moves of all the side's pieces, in scan
  order, and none of the returned moves has an empty capture list; if no piece of the side
  has a capture, it returns exactly the non-capturing moves of all the side's pieces.
\<close>

theorem getLegalMoves_mandatory_capture:
  "((\<exists>sq \<in> set allSquares. captureMovesAt b side sq \<noteq> []) \<longrightarrow>
      getLegalMoves b side None = concat (map (captureMovesAt b side) allSquares)
      \<and> (\<forall>m \<in> set (getLegalMoves b side None). captures m \<noteq> []))
   \<and> ((\<forall>sq \<in> set allSquares. captureMovesAt b side sq = []) \<longrightarrow>
      getLegalMoves b side None = concat (map (quietMovesAt b side) allSquares))"
proof (intro conjI impI)
  assume ex: "\<exists>sq \<in> set allSquares. captureMovesAt b side sq \<noteq> []"
  then have ne: "concat (map (captureMovesAt b side) allSquares) \<noteq> []"
    by auto
  then show eq: "getLegalMoves b side None = concat (map (captureMovesAt b side) allSquares)"
    by (simp add: getLegalMoves_None)
  show "\<forall>m \<in> set (getLegalMoves b side None). captures m \<noteq> []"
    unfolding eq by (auto dest: captureMovesAt_nonempty)
next
  assume "\<forall>sq \<in> set allSquares. captureMovesAt b side sq = []"
  then have "concat (map (captureMovesAt b side) allSquares) = []"
    by auto
  then show "getLegalMoves b side None = concat (map (quietMovesAt b side) allSquares)"
    by (simp add: getLegalMoves_None)
qed

theorem getLegalMoves_mandatory_capture_witness:
  "(\<exists>sq \<in> set allSquares. captureMovesAt boardBackwardCapture W sq \<noteq> [])
   \<and> getLegalMoves boardBackwardCapture W None = [mkMove 4 3 6 5 [\<lparr>row = 5, col = 4\<rparr>]]
   \<and> list_all (\<lambda>m. captures m \<noteq> []) (getLegalMoves boardBackwardCapture W None)
   \<and> list_all (\<lambda>sq. captureMovesAt boardQuiet W sq = []) allSquares
   \<and> getLegalMoves boardQuiet W None = [mkMove 4 3 3 2 [], mkMove 4 3 3 4 []]"
proof -
  have h1: "\<exists>sq \<in> set allSquares. captureMovesAt boardBackwardCapture W sq \<noteq> []"
    by code_simp
  have h2: "\<forall>sq \<in> set allSquares. captureMovesAt boardQuiet W sq = []"
    by code_simp
  have c1: "concat (map (captureMovesAt boardBackwardCapture W) allSquares)
              = [mkMove 4 3 6 5 [\<lparr>row = 5, col = 4\<rparr>]]"
    by code_simp
  have c2: "concat (map (quietMovesAt boardQuiet W) allSquares)
              = [mkMove 4 3 3 2 [], mkMove 4 3 3 4 []]"
    by code_simp
  show ?thesis
    using h1 h2 c1 c2
      getLegalMoves_mandatory_capture [of boardBackwardCapture W]
      getLegalMoves_mandatory_capture [of boardQuiet W]
    by (simp add: list_all_iff)
qed

lemma man_simple_shape:
  assumes "\<not> king p" and "m \<in> set (getSimpleMovesForPiece b r c p)"
  shows "fromSq m = \<lparr>row = r, col = c\<rparr> \<and> captures m = []
      \<and> row (toSq m) = (if color p = W then r - 1 else r + 1)
      \<and> (col (toSq m) = c - 1 \<or> col (toSq m) = c + 1)"
  using assms
  by (auto simp: getSimpleMovesForPiece_def mkMove_def Let_def split: if_splits)

lemma man_capture_shape:
  assumes "\<not> king p" and "m \<in> set (getCaptureMovesForPiece b r c p)"
  shows "\<exists>dr dc. (dr, dc) \<in> set DIRECTIONS \<and>
      m = mkMove r c (r + dr * 2) (c + dc * 2) [\<lparr>row = r + dr, col = c + dc\<rparr>]
      \<and> (\<exists>q. cell b (r + dr) (c + dc) = Some q \<and> color q \<noteq> color p)
      \<and> cell b (r + dr * 2) (c + dc * 2) = None"
proof -
  from assms have "m \<in> set (getManCaptures b r c p)"
    by (simp add: getCaptureMovesForPiece_def)
  then obtain dr dc where d: "(dr, dc) \<in> set DIRECTIONS"
    and inside: "isInside (r + dr) (c + dc)" "isInside (r + dr * 2) (c + dc * 2)"
    and m: "m \<in> set (case cell b (r + dr) (c + dc) of
                  None \<Rightarrow> []
                | Some middle \<Rightarrow>
                    if color middle \<noteq> color p \<and> cell b (r + dr * 2) (c + dc * 2) = None
                    then [mkMove r c (r + dr * 2) (c + dc * 2) [\<lparr>row = r + dr, col = c + dc\<rparr>]]
                    else [])"
    by (auto simp: getManCaptures_def Let_def split: if_splits)
  from m obtain q where "cell b (r + dr) (c + dc) = Some q" "color q \<noteq> color p"
    "cell b (r + dr * 2) (c + dc * 2) = None"
    "m = mkMove r c (r + dr * 2) (c + dc * 2) [\<lparr>row = r + dr, col = c + dc\<rparr>]"
    by (cases "cell b (r + dr) (c + dc)") (auto split: if_splits)
  with d show ?thesis
    by blast
qed

text \<open>
  C6 as the code has it. A man steps one square diagonally forward only (row decreasing
  for white, increasing for black). A man's capture follows any of the four entries of
  \<open>DIRECTIONS\<close>, forward or backward: it jumps from \<open>(r, c)\<close> over an adjacent piece of
  the other colour on \<open>(r + dr, c + dc)\<close> to the empty square \<open>(r + 2 dr, c + 2 dc)\<close>.
\<close>

theorem man_moves_directions:
  assumes "\<not> king p"
  shows "(\<forall>m \<in> set (getSimpleMovesForPiece b r c p).
            fromSq m = \<lparr>row = r, col = c\<rparr> \<and> captures m = []
            \<and> row (toSq m) = (if color p = W then r - 1 else r + 1)
            \<and> (col (toSq m) = c - 1 \<or> col (toSq m) = c + 1))
       \<and> (\<forall>m \<in> set (getCaptureMovesForPiece b r c p).
            \<exists>dr dc. (dr, dc) \<in> set DIRECTIONS \<and>
              m = mkMove r c (r + dr * 2) (c + dc * 2) [\<lparr>row = r + dr, col = c + dc\<rparr>]
              \<and> (\<exists>q. cell b (r + dr) (c + dc) = Some q \<and> color q \<noteq> color p)
              \<and> cell b (r + dr * 2) (c + dc * 2) = None)"
  using man_simple_shape [OF assms] man_capture_shape [OF assms] by blast

theorem man_moves_directions_witness:
  "\<not> king whiteMan
   \<and> mkMove 4 3 3 2 [] \<in> set (getSimpleMovesForPiece boardQuiet 4 3 whiteMan)
   \<and> row (toSq (mkMove 4 3 3 2 [])) = 4 - 1
   \<and> mkMove 4 3 6 5 [\<lparr>row = 5, col = 4\<rparr>]
        \<in> set (getCaptureMovesForPiece boardBackwardCapture 4 3 whiteMan)
   \<and> (1, 1) \<in> set DIRECTIONS
   \<and> cell boardBackwardCapture (4 + 1) (3 + 1) = Some blackMan"
proof -
  have h: "\<not> king whiteMan"
    by (simp add: whiteMan_def)
  have s: "mkMove 4 3 3 2 [] \<in> set (getSimpleMovesForPiece boardQuiet 4 3 whiteMan)"
    by code_simp
  have k: "mkMove 4 3 6 5 [\<lparr>row = 5, col = 4\<rparr>]
             \<in> set (getCaptureMovesForPiece boardBackwardCapture 4 3 whiteMan)"
    by code_simp
  have d: "(1, 1) \<in> set DIRECTIONS \<and> cell boardBackwardCapture (4 + 1) (3 + 1) = Some blackMan"
    by code_simp
  from man_moves_directions [OF h, of boardQuiet 4 3] s
  have "row (toSq (mkMove 4 3 3 2 [])) = (if color whiteMan = W then 4 - 1 else 4 + 1)"
    by blast
  then show ?thesis
    using h s k d by (simp add: whiteMan_def)
qed

text \<open>
  C6 as stated fails: a white man on (4,3) captures the black man on (5,4) by jumping to
  (6,5), with the row increasing, which for white is backward.
\<close>

theorem man_capture_backward_counterexample:
  "mkMove 4 3 6 5 [\<lparr>row = 5, col = 4\<rparr>]
     \<in> set (getCaptureMovesForPiece boardBackwardCapture 4 3 whiteMan)
   \<and> cell boardBackwardCapture 4 3 = Some whiteMan
   \<and> \<not> king whiteMan \<and> color whiteMan = W
   \<and> row (toSq (mkMove 4 3 6 5 [\<lparr>row = 5, col = 4\<rparr>]))
       > row (fromSq (mkMove 4 3 6 5 [\<lparr>row = 5, col = 4\<rparr>]))"
  by code_simp

section \<open>Properties of apply and undo\<close>

lemma wf_board_rows: "wf_board b \<Longrightarrow> i < 8 \<Longrightarrow> length (b ! i) = 8"
  by (simp add: wf_board_def list_all_length)

lemma wf_setCell: "wf_board b \<Longrightarrow> wf_board (setCell b r c v)"
  by (auto simp: wf_board_def setCell_def list_all_length nth_list_update isInside_def)

lemma cell_inside: "cell b r c = Some p \<Longrightarrow> isInside r c"
  by (simp add: cell_def split: if_splits)

lemma cell_setCell:
  "wf_board b \<Longrightarrow>
   cell (setCell b r c v) r' c' = (if isInside r c \<and> r' = r \<and> c' = c then v else cell b r' c')"
  by (auto simp: cell_def setCell_def isInside_def wf_board_def list_all_length nth_list_update)

lemma board_ext:
  assumes "wf_board a" "wf_board b"
    and eq: "\<And>r c. isInside r c \<Longrightarrow> cell a r c = cell b r c"
  shows "a = b"
proof (rule nth_equalityI)
  show "length a = length b" using assms by (simp add: wf_board_def)
next
  fix i assume i: "i < length a"
  then have i8: "i < 8" using assms by (simp add: wf_board_def)
  show "a ! i = b ! i"
  proof (rule nth_equalityI)
    show "length (a ! i) = length (b ! i)"
      using assms i8 by (simp add: wf_board_rows)
  next
    fix j assume "j < length (a ! i)"
    then have j8: "j < 8" using assms i8 by (simp add: wf_board_rows)
    have "isInside (int i) (int j)" using i8 j8 by (simp add: isInside_def)
    from eq [OF this] show "a ! i ! j = b ! i ! j"
      using i8 j8 by (simp add: cell_def isInside_def)
  qed
qed

lemma slideMoves_fits:
  "cell b r c = Some p \<Longrightarrow> m \<in> set (slideMoves b r c dr dc nr nc) \<Longrightarrow> moveFits b (color p) m"
proof (induction b r c dr dc nr nc rule: slideMoves.induct)
  case (1 b r c dr dc nr nc)
  from "1.prems"(2) show ?case
    apply (subst (asm) slideMoves.simps)
    using "1.IH" "1.prems"(1)
    apply (auto simp: mkMove_def moveFits_def split: if_splits)
    done
qed

lemma simpleMoves_fits:
  assumes "cell b r c = Some p" "m \<in> set (getSimpleMovesForPiece b r c p)"
  shows "moveFits b (color p) m"
proof (cases "king p")
  case True
  with assms(2) obtain dr dc where "m \<in> set (slideMoves b r c dr dc (r + dr) (c + dc))"
    by (auto simp: getSimpleMovesForPiece_def)
  then show ?thesis
    by (rule slideMoves_fits [OF assms(1)])
next
  case False
  with assms show ?thesis
    by (auto simp: getSimpleMovesForPiece_def Let_def mkMove_def moveFits_def split: if_splits)
qed

lemma manCaptures_fits:
  assumes "cell b r c = Some p" "m \<in> set (getManCaptures b r c p)"
  shows "moveFits b (color p) m"
proof -
  from assms(2) obtain dr dc where
    inside: "isInside (r + dr) (c + dc)" "isInside (r + dr * 2) (c + dc * 2)"
    and m: "m \<in> set (case cell b (r + dr) (c + dc) of
                  None \<Rightarrow> []
                | Some middle \<Rightarrow>
                    if color middle \<noteq> color p \<and> cell b (r + dr * 2) (c + dc * 2) = None
                    then [mkMove r c (r + dr * 2) (c + dc * 2) [\<lparr>row = r + dr, col = c + dc\<rparr>]]
                    else [])"
    by (auto simp: getManCaptures_def Let_def split: if_splits)
  from m obtain q where "cell b (r + dr) (c + dc) = Some q" "color q \<noteq> color p"
    "cell b (r + dr * 2) (c + dc * 2) = None"
    "m = mkMove r c (r + dr * 2) (c + dc * 2) [\<lparr>row = r + dr, col = c + dc\<rparr>]"
    by (cases "cell b (r + dr) (c + dc)") (auto split: if_splits)
  with assms(1) inside show ?thesis
    by (simp add: moveFits_def mkMove_def)
qed

lemma kingCaptureScan_fits:
  "cell b r c = Some p \<Longrightarrow>
   (case e of None \<Rightarrow> True
    | Some sq \<Rightarrow> \<exists>q. cell b (row sq) (col sq) = Some q \<and> color q \<noteq> color p) \<Longrightarrow>
   m \<in> set (kingCaptureScan b r c p dr dc nr nc e) \<Longrightarrow> moveFits b (color p) m"
proof (induction b r c p dr dc nr nc e rule: kingCaptureScan.induct)
  case (1 b r c p dr dc nr nc enemySquare)
  from "1.prems"(3) show ?case
    apply (subst (asm) kingCaptureScan.simps)
    using "1.IH" "1.prems"(1,2)
    apply (auto simp: mkMove_def moveFits_def split: if_splits option.splits)
    done
qed

lemma captureMoves_fits:
  "cell b r c = Some p \<Longrightarrow> m \<in> set (getCaptureMovesForPiece b r c p) \<Longrightarrow> moveFits b (color p) m"
  by (auto simp: getCaptureMovesForPiece_def getKingCaptures_def
      dest: manCaptures_fits kingCaptureScan_fits [where e = None, simplified]
      split: if_splits)

lemma captureMovesAt_fits: "m \<in> set (captureMovesAt b side sq) \<Longrightarrow> moveFits b side m"
  by (cases sq)
     (auto simp: captureMovesAt_def dest: captureMoves_fits [OF sym] split: option.splits if_splits)

lemma quietMovesAt_fits: "m \<in> set (quietMovesAt b side sq) \<Longrightarrow> moveFits b side m"
  by (cases sq)
     (auto simp: quietMovesAt_def dest: simpleMoves_fits [OF sym] split: option.splits if_splits)

lemma getLegalMoves_fits:
  assumes "m \<in> set (getLegalMoves b side pending)"
  shows "moveFits b side m"
proof (cases pending)
  case None
  with assms show ?thesis
    by (auto simp: getLegalMoves_None dest: captureMovesAt_fits quietMovesAt_fits
        split: if_splits)
next
  case (Some pc)
  with assms show ?thesis
    by (auto simp: getLegalMoves_def dest: captureMoves_fits [OF sym] split: option.splits if_splits)
qed

lemma promoted_color [simp]: "color (promoted p tr) = color p"
  by (simp add: promoted_def)

lemma promoted_unking [simp]: "(promoted p tr)\<lparr>king := king p\<rparr> = p"
  by (simp add: promoted_def)

lemma moveFits_distinct:
  assumes "moveFits b side m"
  shows "(row (fromSq m), col (fromSq m)) \<noteq> (row (toSq m), col (toSq m))"
    and "captures m = [e] \<Longrightarrow> (row e, col e) \<noteq> (row (fromSq m), col (fromSq m))"
    and "captures m = [e] \<Longrightarrow> (row e, col e) \<noteq> (row (toSq m), col (toSq m))"
  using assms by (auto simp: moveFits_def)

lemma applyMoveMutable_quiet:
  assumes wf: "wf_board (board n)"
    and src: "cell (board n) (row (fromSq m)) (col (fromSq m)) = Some mp"
    and caps: "captures m = []"
  shows "applyMoveMutable n m =
     Inr (\<lparr>board = setCell (setCell (board n) (row (fromSq m)) (col (fromSq m)) None)
                      (row (toSq m)) (col (toSq m)) (Some (promoted mp (row (toSq m)))),
           hash = hash n XOR pieceHash (row (fromSq m)) (col (fromSq m)) mp
                    XOR pieceHash (row (toSq m)) (col (toSq m)) (promoted mp (row (toSq m))),
           turn = opposite (turn n), pendingCapture = None\<rparr>,
          \<lparr>move = m, movedPiece = promoted mp (row (toSq m)), wasKing = king mp,
           captured = [], prevHash = hash n, prevTurn = turn n,
           prevPendingCapture = pendingCapture n\<rparr>)"
proof -
  from src have "isInside (row (fromSq m)) (col (fromSq m))"
    by (rule cell_inside)
  then have "rowInside (row (fromSq m))"
    by (simp add: isInside_def rowInside_def)
  then show ?thesis
    using src caps by (simp add: applyMoveMutable_def nextTurnState_def Let_def xor.assoc)
qed

lemma applyMoveMutable_capture:
  assumes wf: "wf_board (board n)"
    and src: "cell (board n) (row (fromSq m)) (col (fromSq m)) = Some mp"
    and dst: "isInside (row (toSq m)) (col (toSq m))"
    and caps: "captures m = [e]"
    and vic: "cell (board n) (row e) (col e) = Some q"
    and ne: "(row e, col e) \<noteq> (row (fromSq m), col (fromSq m))"
  shows "applyMoveMutable n m =
     (let mp' = promoted mp (row (toSq m));
          b3 = setCell (setCell (setCell (board n) (row (fromSq m)) (col (fromSq m)) None)
                          (row e) (col e) None)
                 (row (toSq m)) (col (toSq m)) (Some mp');
          more = getCaptureMovesForPiece b3 (row (toSq m)) (col (toSq m)) mp' \<noteq> []
      in Inr (\<lparr>board = b3,
           hash = hash n XOR pieceHash (row (fromSq m)) (col (fromSq m)) mp
                    XOR pieceHash (row e) (col e) q
                    XOR pieceHash (row (toSq m)) (col (toSq m)) mp',
           turn = (if more then turn n else opposite (turn n)),
           pendingCapture =
             (if more then Some \<lparr>row = row (toSq m), col = col (toSq m)\<rparr> else None)\<rparr>,
          \<lparr>move = m, movedPiece = mp', wasKing = king mp,
           captured = [\<lparr>capturedRow = row e, capturedCol = col e, piece = q\<rparr>],
           prevHash = hash n, prevTurn = turn n,
           prevPendingCapture = pendingCapture n\<rparr>))"
proof -
  from src have "isInside (row (fromSq m)) (col (fromSq m))"
    by (rule cell_inside)
  then have ri: "rowInside (row (fromSq m))"
    by (simp add: isInside_def rowInside_def)
  have c1: "cell (setCell (board n) (row (fromSq m)) (col (fromSq m)) None) (row e) (col e) = Some q"
    using wf vic ne by (auto simp: cell_setCell)
  have wf2: "wf_board (setCell (setCell (board n) (row (fromSq m)) (col (fromSq m)) None)
                          (row e) (col e) None)"
    using wf by (simp add: wf_setCell)
  show ?thesis
    using ri src caps c1 dst
    by (simp add: applyMoveMutable_def nextTurnState_def Let_def cell_setCell [OF wf2] xor.assoc)
qed

lemma undo_apply_fits:
  assumes wf: "wf_board (board n)" and fits: "moveFits (board n) side m"
  shows "\<exists>n' u. applyMoveMutable n m = Inr (n', u) \<and> undoMoveMutable n' u = n
           \<and> wf_board (board n')"
proof -
  from fits obtain mp where
    src: "cell (board n) (row (fromSq m)) (col (fromSq m)) = Some mp" and
    dst: "isInside (row (toSq m)) (col (toSq m))" and
    free: "cell (board n) (row (toSq m)) (col (toSq m)) = None"
    by (auto simp: moveFits_def)
  have srcIn: "isInside (row (fromSq m)) (col (fromSq m))"
    using src by (rule cell_inside)
  note d = moveFits_distinct [OF fits]
  show ?thesis
  proof (cases "captures m")
    case Nil
    let ?b3 = "setCell (setCell (board n) (row (fromSq m)) (col (fromSq m)) None)
                 (row (toSq m)) (col (toSq m)) (Some (promoted mp (row (toSq m))))"
    let ?orig = "setCell (setCell ?b3 (row (toSq m)) (col (toSq m)) None)
                   (row (fromSq m)) (col (fromSq m)) (Some mp)"
    have wf3: "wf_board ?b3"
      using wf by (simp add: wf_setCell)
    have "?orig = board n"
    proof (rule board_ext)
      show "wf_board ?orig" using wf by (simp add: wf_setCell)
      show "wf_board (board n)" by (rule wf)
      fix r c assume "isInside r c"
      show "cell ?orig r c = cell (board n) r c"
        using wf src free d(1) by (auto simp: cell_setCell wf_setCell)
    qed
    then have "undoMoveMutable
        \<lparr>board = ?b3,
         hash = hash n XOR pieceHash (row (fromSq m)) (col (fromSq m)) mp
                  XOR pieceHash (row (toSq m)) (col (toSq m)) (promoted mp (row (toSq m))),
         turn = opposite (turn n), pendingCapture = None\<rparr>
        \<lparr>move = m, movedPiece = promoted mp (row (toSq m)), wasKing = king mp,
         captured = [], prevHash = hash n, prevTurn = turn n,
         prevPendingCapture = pendingCapture n\<rparr> = n"
      by (simp add: undoMoveMutable_def)
    with wf3 show ?thesis
      unfolding applyMoveMutable_quiet [OF wf src Nil] by simp
  next
    case (Cons e rest)
    with fits obtain q where caps: "captures m = [e]"
      and vic: "cell (board n) (row e) (col e) = Some q"
      by (auto simp: moveFits_def)
    have vicIn: "isInside (row e) (col e)"
      using vic by (rule cell_inside)
    let ?mp' = "promoted mp (row (toSq m))"
    let ?b3 = "setCell (setCell (setCell (board n) (row (fromSq m)) (col (fromSq m)) None)
                          (row e) (col e) None)
                 (row (toSq m)) (col (toSq m)) (Some ?mp')"
    let ?orig = "setCell (setCell (setCell ?b3 (row (toSq m)) (col (toSq m)) None)
                   (row (fromSq m)) (col (fromSq m)) (Some mp)) (row e) (col e) (Some q)"
    have wf3: "wf_board ?b3"
      using wf by (simp add: wf_setCell)
    have restored: "?orig = board n"
    proof (rule board_ext)
      show "wf_board ?orig" using wf by (simp add: wf_setCell)
      show "wf_board (board n)" by (rule wf)
      fix r c assume "isInside r c"
      show "cell ?orig r c = cell (board n) r c"
        using wf src free vic d(1) d(2) [OF caps] d(3) [OF caps]
        by (auto simp: cell_setCell wf_setCell)
    qed
    show ?thesis
      unfolding applyMoveMutable_capture [OF wf src dst caps vic d(2) [OF caps]] Let_def
      using wf3 restored by (simp add: undoMoveMutable_def)
  qed
qed

lemma computeBoardHash_alt:
  "computeBoardHash b = foldl (\<lambda>h sq. h XOR optHash (fst sq) (snd sq) (cell b (fst sq) (snd sq))) 0 allSquares"
proof -
  have "(\<lambda>h (r, c). case cell b r c of None \<Rightarrow> h | Some p \<Rightarrow> h XOR pieceHash r c p)
      = (\<lambda>h sq. h XOR optHash (fst sq) (snd sq) (cell b (fst sq) (snd sq)))"
    by (auto simp: fun_eq_iff optHash_def split: option.splits)
  then show ?thesis
    by (simp add: computeBoardHash_def)
qed

lemma xor_fold_shift:
  "foldl (\<lambda>h y. h XOR g y) (h0 :: 64 word) xs = h0 XOR foldl (\<lambda>h y. h XOR g y) 0 xs"
proof (induction xs arbitrary: h0)
  case Nil
  show ?case by simp
next
  case (Cons x xs)
  show ?case
    by (simp add: Cons.IH [of "h0 XOR g x"] Cons.IH [of "g x"] xor.assoc)
qed

lemma xor_fold_cong:
  "(\<And>y. y \<in> set xs \<Longrightarrow> g' y = g y) \<Longrightarrow>
   foldl (\<lambda>h y. h XOR g' y) (h0 :: 64 word) xs = foldl (\<lambda>h y. h XOR g y) h0 xs"
  by (induction xs arbitrary: h0) simp_all

lemma xor_fold_update:
  assumes "distinct xs" "x \<in> set xs" "\<And>y. y \<noteq> x \<Longrightarrow> g' y = g y"
  shows "foldl (\<lambda>h y. h XOR g' y) (h0 :: 64 word) xs
           = foldl (\<lambda>h y. h XOR g y) h0 xs XOR g x XOR g' x"
  using assms(1,2)
proof (induction xs arbitrary: h0)
  case Nil
  then show ?case by simp
next
  case (Cons a xs)
  show ?case
  proof (cases "a = x")
    case True
    with Cons.prems have "x \<notin> set xs" by simp
    then have "foldl (\<lambda>h y. h XOR g' y) (h0 XOR g' x) xs = foldl (\<lambda>h y. h XOR g y) (h0 XOR g' x) xs"
      using assms(3) by (intro xor_fold_cong) metis
    then show ?thesis
      using True
      by (simp add: xor_fold_shift [of g "h0 XOR g' x"] xor_fold_shift [of g "h0 XOR g x"]
            xor.assoc xor.left_commute xor.commute)
  next
    case False
    with Cons.prems have "distinct xs" "x \<in> set xs" by auto
    from Cons.IH [OF this] show ?thesis
      using False assms(3) [of a] by simp
  qed
qed

lemma distinct_allSquares: "distinct allSquares"
  by code_simp

lemma set_allSquares: "(r, c) \<in> set allSquares \<longleftrightarrow> isInside r c"
  by (force simp: allSquares_def isInside_def)

lemma computeBoardHash_setCell:
  assumes wf: "wf_board b" and ins: "isInside r c"
  shows "computeBoardHash (setCell b r c v)
           = computeBoardHash b XOR optHash r c (cell b r c) XOR optHash r c v"
proof -
  let ?g = "\<lambda>sq. optHash (fst sq) (snd sq) (cell b (fst sq) (snd sq))"
  let ?g' = "\<lambda>sq. optHash (fst sq) (snd sq) (cell (setCell b r c v) (fst sq) (snd sq))"
  have "foldl (\<lambda>h y. h XOR ?g' y) 0 allSquares
          = foldl (\<lambda>h y. h XOR ?g y) 0 allSquares XOR ?g (r, c) XOR ?g' (r, c)"
  proof (rule xor_fold_update)
    show "distinct allSquares" by (rule distinct_allSquares)
    show "(r, c) \<in> set allSquares" using ins by (simp add: set_allSquares)
    fix y :: "int \<times> int" assume "y \<noteq> (r, c)"
    then show "?g' y = ?g y"
      using wf by (cases y) (auto simp: cell_setCell)
  qed
  then show ?thesis
    using wf ins by (simp add: computeBoardHash_alt cell_setCell)
qed

lemma apply_hash_fits:
  assumes wf: "wf_board (board n)" and fits: "moveFits (board n) side m"
    and h: "hash n = computeBoardHash (board n)"
    and ap: "applyMoveMutable n m = Inr (n', u)"
  shows "hash n' = computeBoardHash (board n')"
proof -
  from fits obtain mp where
    src: "cell (board n) (row (fromSq m)) (col (fromSq m)) = Some mp" and
    dst: "isInside (row (toSq m)) (col (toSq m))" and
    free: "cell (board n) (row (toSq m)) (col (toSq m)) = None"
    by (auto simp: moveFits_def)
  have srcIn: "isInside (row (fromSq m)) (col (fromSq m))"
    using src by (rule cell_inside)
  note d = moveFits_distinct [OF fits]
  show ?thesis
  proof (cases "captures m")
    case Nil
    from ap show ?thesis
      unfolding applyMoveMutable_quiet [OF wf src Nil]
      using wf src free d(1) srcIn dst h
      by (auto simp: computeBoardHash_setCell wf_setCell cell_setCell optHash_def xor.assoc)
  next
    case (Cons e rest)
    with fits obtain q where caps: "captures m = [e]"
      and vic: "cell (board n) (row e) (col e) = Some q"
      by (auto simp: moveFits_def)
    have vicIn: "isInside (row e) (col e)"
      using vic by (rule cell_inside)
    from ap show ?thesis
      unfolding applyMoveMutable_capture [OF wf src dst caps vic d(2) [OF caps]] Let_def
      using wf src free vic d(1) d(2) [OF caps] d(3) [OF caps] srcIn dst vicIn h
      by (auto simp: computeBoardHash_setCell wf_setCell cell_setCell optHash_def xor.assoc)
  qed
qed

lemma stackOk_good: "stackOk n us \<Longrightarrow> goodNode n"
  by (cases us) simp_all

lemma searchReach_stackOk:
  assumes "searchReach n0 st" "goodNode n0"
  shows "stackOk (fst st) (snd st)"
  using assms
proof (induction rule: searchReach.induct)
  case start
  then show ?case by simp
next
  case (applied n us m n' u)
  then have ok: "stackOk n us" by simp
  then have g: "goodNode n" by (rule stackOk_good)
  from applied.hyps(2) have fits: "moveFits (board n) (turn n) m"
    by (rule getLegalMoves_fits)
  from g have wf: "wf_board (board n)" and h: "hash n = computeBoardHash (board n)"
    by (simp_all add: goodNode_def)
  from undo_apply_fits [OF wf fits] applied.hyps(3)
  have restored: "undoMoveMutable n' u = n" and wf': "wf_board (board n')"
    by auto
  from apply_hash_fits [OF wf fits h applied.hyps(3)] wf'
  have "goodNode n'" by (simp add: goodNode_def)
  with ok restored show ?case by simp
next
  case (undone n u us)
  then show ?case by simp
qed

text \<open>
  C4 (hash integrity). Start from a node whose hash is \<open>computeBoardHash\<close> of its board, as
  \<open>chooseBestMove\<close> builds the root. After any sequence of \<open>applyMoveMutable\<close> calls with
  legal moves and \<open>undoMoveMutable\<close> calls with the token of the move applied last, the
  maintained hash equals the hash recomputed from the board, and the key \<open>nodeCacheKey\<close>
  equals the one recomputed from board, side to move, pending square and variant.
\<close>

theorem hash_integrity:
  assumes "wf_board (board n0)" and "hash n0 = computeBoardHash (board n0)"
    and "searchReach n0 (n, us)"
  shows "hash n = computeBoardHash (board n)
       \<and> nodeCacheKey v n =
           computeBoardHash (board n)
             XOR (if turn n = W then ZOBRIST_TURN_WHITE else ZOBRIST_TURN_BLACK)
             XOR pendingCaptureHash (pendingCapture n) XOR variantHash v"
proof -
  from assms(1,2) have "goodNode n0" by (simp add: goodNode_def)
  from searchReach_stackOk [OF assms(3) this] have "goodNode n"
    by (auto dest: stackOk_good)
  then show ?thesis
    by (simp add: goodNode_def nodeCacheKey_def)
qed

text \<open>
  C2 (round trip). For a node with an 8 by 8 board and any move of its legal-move list,
  \<open>applyMoveMutable\<close> returns a token, and \<open>undoMoveMutable\<close> with that token gives back the
  node as it was: board with every king flag, hash, side to move and pending square.
\<close>

theorem apply_undo_roundtrip:
  assumes "wf_board (board n)"
    and "m \<in> set (getLegalMoves (board n) (turn n) (pendingCapture n))"
  shows "\<exists>n' u. applyMoveMutable n m = Inr (n', u) \<and> undoMoveMutable n' u = n"
  using undo_apply_fits [OF assms(1) getLegalMoves_fits [OF assms(2)]] by blast

lemma wf_example: "wf_board (board exampleNode)"
  by (simp add: exampleNode_def) code_simp

lemma legal_example:
  "exampleCapture \<in> set (getLegalMoves (board exampleNode) (turn exampleNode) (pendingCapture exampleNode))"
  by (simp add: exampleNode_def) code_simp

theorem apply_undo_roundtrip_witness:
  "wf_board (board exampleNode)
   \<and> exampleCapture \<in> set (getLegalMoves (board exampleNode) (turn exampleNode)
                              (pendingCapture exampleNode))
   \<and> \<not> isl (applyMoveMutable exampleNode exampleCapture)
   \<and> undoMoveMutable (fst (projr (applyMoveMutable exampleNode exampleCapture)))
                      (snd (projr (applyMoveMutable exampleNode exampleCapture))) = exampleNode"
proof -
  from apply_undo_roundtrip [OF wf_example legal_example]
  obtain n' u where "applyMoveMutable exampleNode exampleCapture = Inr (n', u)"
    "undoMoveMutable n' u = exampleNode" by blast
  then show ?thesis
    using wf_example legal_example by simp
qed

theorem hash_integrity_witness:
  "wf_board (board exampleNode)
   \<and> hash exampleNode = computeBoardHash (board exampleNode)
   \<and> hash (fst (projr (applyMoveMutable exampleNode exampleCapture)))
       = computeBoardHash (board (fst (projr (applyMoveMutable exampleNode exampleCapture))))"
proof -
  have h0: "hash exampleNode = computeBoardHash (board exampleNode)"
    by (simp add: exampleNode_def)
  from undo_apply_fits [OF wf_example getLegalMoves_fits [OF legal_example]]
  obtain n' u where ap: "applyMoveMutable exampleNode exampleCapture = Inr (n', u)"
    by blast
  have "searchReach exampleNode (n', [u])"
    by (rule searchReach.applied [OF searchReach.start legal_example ap])
  from hash_integrity [OF wf_example h0 this, of Classic] show ?thesis
    using wf_example h0 ap by simp
qed

text \<open>
  C3 (multi-capture). Applying a legal move puts the moved piece, promoted if it reached the
  far row, on the landing square. If the move captured and that piece has a capture from the
  landing square on the new board, the side to move is unchanged and the pending square is
  the landing square; otherwise (also for every non-capturing move) the side to move is the
  opponent and there is no pending square.
\<close>

theorem multi_capture_turn_state:
  assumes "wf_board (board n)"
    and "m \<in> set (getLegalMoves (board n) (turn n) (pendingCapture n))"
  shows "\<exists>n' u p.
           applyMoveMutable n m = Inr (n', u)
           \<and> cell (board n) (row (fromSq m)) (col (fromSq m)) = Some p
           \<and> cell (board n') (row (toSq m)) (col (toSq m)) = Some (promoted p (row (toSq m)))
           \<and> (if captures m \<noteq> []
                 \<and> getCaptureMovesForPiece (board n') (row (toSq m)) (col (toSq m))
                      (promoted p (row (toSq m))) \<noteq> []
               then turn n' = turn n
                    \<and> pendingCapture n' = Some \<lparr>row = row (toSq m), col = col (toSq m)\<rparr>
               else turn n' = opposite (turn n) \<and> pendingCapture n' = None)"
proof -
  note wf = assms(1)
  have fits: "moveFits (board n) (turn n) m"
    using assms(2) by (rule getLegalMoves_fits)
  then obtain mp where
    src: "cell (board n) (row (fromSq m)) (col (fromSq m)) = Some mp" and
    dst: "isInside (row (toSq m)) (col (toSq m))"
    by (auto simp: moveFits_def)
  note d = moveFits_distinct [OF fits]
  show ?thesis
  proof (cases "captures m")
    case Nil
    show ?thesis
      unfolding applyMoveMutable_quiet [OF wf src Nil]
      using wf src dst Nil by (simp add: cell_setCell wf_setCell)
  next
    case (Cons e rest)
    with fits obtain q where caps: "captures m = [e]"
      and vic: "cell (board n) (row e) (col e) = Some q"
      by (auto simp: moveFits_def)
    show ?thesis
      unfolding applyMoveMutable_capture [OF wf src dst caps vic d(2) [OF caps]] Let_def
      using wf src dst caps by (simp add: cell_setCell wf_setCell)
  qed
qed



theorem multi_capture_turn_state_witness:
  "wf_board (board doubleNode)
   \<and> firstJump \<in> set (getLegalMoves (board doubleNode) (turn doubleNode) (pendingCapture doubleNode))
   \<and> captures firstJump \<noteq> []
   \<and> \<not> isl (applyMoveMutable doubleNode firstJump)
   \<and> turn (fst (projr (applyMoveMutable doubleNode firstJump))) = W
   \<and> pendingCapture (fst (projr (applyMoveMutable doubleNode firstJump)))
       = Some \<lparr>row = 3, col = 4\<rparr>"
proof -
  have wf: "wf_board (board doubleNode)"
    by (simp add: doubleNode_def) code_simp
  have legal: "firstJump \<in> set (getLegalMoves (board doubleNode) (turn doubleNode)
                                    (pendingCapture doubleNode))"
    by (simp add: doubleNode_def) code_simp
  have sq: "row (fromSq firstJump) = 5" "col (fromSq firstJump) = 2"
    "row (toSq firstJump) = 3" "col (toSq firstJump) = 4" "captures firstJump \<noteq> []"
    by (simp_all add: firstJump_def mkMove_def)
  from multi_capture_turn_state [OF wf legal] obtain n' u p where
    ap: "applyMoveMutable doubleNode firstJump = Inr (n', u)" and
    src: "cell (board doubleNode) 5 2 = Some p" and
    cond: "if getCaptureMovesForPiece (board n') 3 4 (promoted p 3) \<noteq> []
           then turn n' = turn doubleNode \<and> pendingCapture n' = Some \<lparr>row = 3, col = 4\<rparr>
           else turn n' = opposite (turn doubleNode) \<and> pendingCapture n' = None"
    by (auto simp: sq)
  have "cell boardDoubleCapture 5 2 = Some whiteMan"
    by code_simp
  with src have p: "p = whiteMan"
    by (simp add: doubleNode_def)
  have vic: "cell (board doubleNode) (row \<lparr>row = 4, col = 3\<rparr>) (col \<lparr>row = 4, col = 3\<rparr>) = Some blackMan"
    by (simp add: doubleNode_def) code_simp
  have "board n' = setCell (setCell (setCell boardDoubleCapture 5 2 None) 4 3 None) 3 4 (Some whiteMan)"
    using ap applyMoveMutable_capture [OF wf, of firstJump p "\<lparr>row = 4, col = 3\<rparr>" blackMan] src vic
    by (auto simp: firstJump_def mkMove_def isInside_def Let_def p promoted_def whiteMan_def
          doubleNode_def)
  moreover have "getCaptureMovesForPiece
      (setCell (setCell (setCell boardDoubleCapture 5 2 None) 4 3 None) 3 4 (Some whiteMan))
      3 4 (promoted whiteMan 3) \<noteq> []"
    by code_simp
  ultimately have "turn n' = turn doubleNode \<and> pendingCapture n' = Some \<lparr>row = 3, col = 4\<rparr>"
    using cond p by simp
  then show ?thesis
    using wf legal sq ap by (simp add: doubleNode_def)
qed



declare minimax.simps [simp del] minimaxMoves.simps [simp del] searchRootMoves.simps [simp del]
  deepen.simps [simp del]

lemma evaluatePosition_hash:
  "evaluatePosition v (n\<lparr>hash := h\<rparr>) p ms = evaluatePosition v n p ms"
  by (cases ms)
     (simp_all add: evaluatePosition_def evaluateGiveawayPosition_def Let_def split: prod.splits)

lemma giveaway_counts:
  "myMen (foldl (giveawayScanStep b p) a sqs) + myKings (foldl (giveawayScanStep b p) a sqs)
     = myMen a + myKings a
       + int (length (filter (\<lambda>(r, c). case cell b r c of None \<Rightarrow> False
                                        | Some q \<Rightarrow> color q = p) sqs))"
proof (induction sqs arbitrary: a)
  case Nil
  show ?case by simp
next
  case (Cons sq sqs)
  obtain r c where sq: "sq = (r, c)" by (cases sq)
  have step: "myMen (giveawayScanStep b p a (r, c)) + myKings (giveawayScanStep b p a (r, c))
      = myMen a + myKings a + (case cell b r c of None \<Rightarrow> 0 | Some q \<Rightarrow> if color q = p then 1 else 0)"
    unfolding giveawayScanStep_def
    by (cases "cell b r c") (auto simp: Let_def)
  show ?case
    unfolding sq
    by (simp add: Cons.IH [of "giveawayScanStep b p a (r, c)"] step split: option.splits)
qed

lemma giveaway_counts_opp:
  "oppMen (foldl (giveawayScanStep b p) a sqs) + oppKings (foldl (giveawayScanStep b p) a sqs)
     = oppMen a + oppKings a
       + int (length (filter (\<lambda>(r, c). case cell b r c of None \<Rightarrow> False
                                        | Some q \<Rightarrow> color q = opposite p) sqs))"
proof (induction sqs arbitrary: a)
  case Nil
  show ?case by simp
next
  case (Cons sq sqs)
  obtain r c where sq: "sq = (r, c)" by (cases sq)
  have opp: "\<And>x. (x = opposite p) = (x \<noteq> p)"
    by (cases p; case_tac x; simp)
  have step: "oppMen (giveawayScanStep b p a (r, c)) + oppKings (giveawayScanStep b p a (r, c))
      = oppMen a + oppKings a
        + (case cell b r c of None \<Rightarrow> 0 | Some q \<Rightarrow> if color q = opposite p then 1 else 0)"
    unfolding giveawayScanStep_def
    by (cases "cell b r c") (auto simp: Let_def opp)
  show ?case
    unfolding sq
    by (simp add: Cons.IH [of "giveawayScanStep b p a (r, c)"] step split: option.splits)
qed

text \<open>
  Bounds on the counters of \<open>evaluateGiveawayPosition\<close> after a scan of squares whose rows
  are on the board.
\<close>

lemma giveaway_bounds:
  assumes "\<forall>sq \<in> set sqs. 0 \<le> fst sq \<and> fst sq \<le> 7"
  shows "myMen a \<le> myMen (foldl (giveawayScanStep b p) a sqs)
     \<and> myKings a \<le> myKings (foldl (giveawayScanStep b p) a sqs)
     \<and> myProgress a \<le> myProgress (foldl (giveawayScanStep b p) a sqs)
     \<and> oppVictims a \<le> oppVictims (foldl (giveawayScanStep b p) a sqs)
     \<and> oppMen (foldl (giveawayScanStep b p) a sqs) \<le> oppMen a + int (length sqs)
     \<and> oppKings (foldl (giveawayScanStep b p) a sqs) \<le> oppKings a + int (length sqs)
     \<and> oppProgress (foldl (giveawayScanStep b p) a sqs) \<le> oppProgress a + 7 * int (length sqs)
     \<and> myVictims (foldl (giveawayScanStep b p) a sqs) \<le> myVictims a + int (length sqs)"
  using assms
proof (induction sqs arbitrary: a)
  case Nil
  show ?case by simp
next
  case (Cons sq sqs)
  obtain r c where sq: "sq = (r, c)" by (cases sq)
  from Cons.prems have r: "0 \<le> r" "r \<le> 7"
    by (simp_all add: sq)
  let ?a1 = "giveawayScanStep b p a (r, c)"
  have step: "myMen a \<le> myMen ?a1 \<and> myKings a \<le> myKings ?a1 \<and> myProgress a \<le> myProgress ?a1
      \<and> oppVictims a \<le> oppVictims ?a1
      \<and> oppMen ?a1 \<le> oppMen a + 1 \<and> oppKings ?a1 \<le> oppKings a + 1
      \<and> oppProgress ?a1 \<le> oppProgress a + 7 \<and> myVictims ?a1 \<le> myVictims a + 1"
    unfolding giveawayScanStep_def
    using r by (cases "cell b r c") (auto simp: Let_def)
  from Cons.prems have rest: "\<forall>sq \<in> set sqs. 0 \<le> fst sq \<and> fst sq \<le> 7"
    by simp
  from Cons.IH [OF rest, of ?a1] step show ?case
    unfolding sq by simp
qed

lemma allSquares_rows: "\<forall>sq \<in> set allSquares. 0 \<le> fst sq \<and> fst sq \<le> 7"
  using set_allSquares by (auto simp: isInside_def)

lemma length_allSquares: "length allSquares = 64"
  by code_simp

text \<open>
  With the perspective on the side to move, the heuristic branch of
  \<open>evaluateGiveawayPosition\<close> stays below the win score.
\<close>

lemma giveaway_heuristic_below:
  assumes "turn n = p" and "1 \<le> countPieces (board n) p"
  shows "evaluateGiveawayPosition n p ms < WIN_SCORE"
proof -
  let ?a = "foldl (giveawayScanStep (board n) p)
              \<lparr>myMen = 0, myKings = 0, oppMen = 0, oppKings = 0, myProgress = 0,
               oppProgress = 0, myVictims = 0, oppVictims = 0\<rparr> allSquares"
  from giveaway_bounds [where sqs = allSquares and b = "board n" and p = p
      and a = "\<lparr>myMen = 0, myKings = 0, oppMen = 0, oppKings = 0, myProgress = 0,
               oppProgress = 0, myVictims = 0, oppVictims = 0\<rparr>", OF allSquares_rows]
  have b: "0 \<le> myMen ?a" "0 \<le> myKings ?a" "0 \<le> myProgress ?a" "0 \<le> oppVictims ?a"
    "oppMen ?a \<le> 64" "oppKings ?a \<le> 64" "oppProgress ?a \<le> 448" "myVictims ?a \<le> 64"
    by (simp_all add: length_allSquares)
  have m: "0 \<le> int (length ms) * 4"
    by simp
  have "myMen ?a + myKings ?a = int (countPieces (board n) p)"
    by (simp add: giveaway_counts countPieces_def)
  with assms(2) have mine: "myMen ?a + myKings ?a \<noteq> 0"
    by simp
  show ?thesis
    unfolding evaluateGiveawayPosition_def Let_def WIN_SCORE_def
    using b m mine assms(1) by (auto simp: algebra_simps)
qed

lemma legal_has_piece:
  assumes "getLegalMoves b side pending \<noteq> []"
  shows "1 \<le> countPieces b side"
proof -
  from assms obtain m where "m \<in> set (getLegalMoves b side pending)"
    by (cases "getLegalMoves b side pending") auto
  from getLegalMoves_fits [OF this] obtain q where
    q: "cell b (row (fromSq m)) (col (fromSq m)) = Some q" "color q = side"
    by (auto simp: moveFits_def)
  from cell_inside [OF q(1)] have "(row (fromSq m), col (fromSq m)) \<in> set allSquares"
    by (simp add: set_allSquares)
  with q have "(row (fromSq m), col (fromSq m))
      \<in> set (filter (\<lambda>(r, c). case cell b r c of None \<Rightarrow> False | Some p \<Rightarrow> color p = side)
               allSquares)"
    by simp
  then have "filter (\<lambda>(r, c). case cell b r c of None \<Rightarrow> False | Some p \<Rightarrow> color p = side)
               allSquares \<noteq> []"
    by (metis empty_iff empty_set)
  then show ?thesis
    by (simp add: countPieces_def Suc_le_eq)
qed

text \<open>
  C9 as the code has it. In the giveaway variant, with the pending square's row on the
  board: \<open>evaluatePosition\<close> returns the full win score for the side to move when that side
  has no legal move, and for a perspective side that has no piece on the board. When the
  side to move has a legal move, so at least one piece and possibly exactly one, the value
  for that side is strictly below the win score: it is \<open>- WIN_SCORE\<close> when the other side has
  no piece left and the heuristic score of \<open>evaluateGiveawayPosition\<close> otherwise. So for the
  side to move the win score is returned exactly when it has no legal move.
\<close>

theorem giveaway_win_score:
  assumes "pendingRowInside (pendingCapture n)"
  shows "(getLegalMoves (board n) (turn n) (pendingCapture n) = [] \<longrightarrow>
      evaluatePosition Giveaway n (turn n) None = WIN_SCORE)
   \<and> (getLegalMoves (board n) (turn n) (pendingCapture n) \<noteq> []
        \<and> countPieces (board n) p = 0 \<longrightarrow>
      evaluatePosition Giveaway n p None = WIN_SCORE)
   \<and> (getLegalMoves (board n) (turn n) (pendingCapture n) \<noteq> [] \<longrightarrow>
      1 \<le> countPieces (board n) (turn n)
      \<and> evaluatePosition Giveaway n (turn n) None < WIN_SCORE
      \<and> evaluatePosition Giveaway n (turn n) None
          = (if countPieces (board n) (opposite (turn n)) = 0 then - WIN_SCORE
             else evaluateGiveawayPosition n (turn n)
                    (getLegalMoves (board n) (turn n) (pendingCapture n))))"
proof (intro conjI impI)
  assume "getLegalMoves (board n) (turn n) (pendingCapture n) = []"
  then show "evaluatePosition Giveaway n (turn n) None = WIN_SCORE"
    by (simp add: evaluatePosition_def terminalScore_def isGiveawayVariant_def)
next
  assume a: "getLegalMoves (board n) (turn n) (pendingCapture n) \<noteq> []
        \<and> countPieces (board n) p = 0"
  have "myMen (foldl (giveawayScanStep (board n) p)
                \<lparr>myMen = 0, myKings = 0, oppMen = 0, oppKings = 0, myProgress = 0,
                 oppProgress = 0, myVictims = 0, oppVictims = 0\<rparr> allSquares)
        + myKings (foldl (giveawayScanStep (board n) p)
                \<lparr>myMen = 0, myKings = 0, oppMen = 0, oppKings = 0, myProgress = 0,
                 oppProgress = 0, myVictims = 0, oppVictims = 0\<rparr> allSquares) = 0"
    using a by (simp add: giveaway_counts countPieces_def)
  with a show "evaluatePosition Giveaway n p None = WIN_SCORE"
    by (simp add: evaluatePosition_def isGiveawayVariant_def evaluateGiveawayPosition_def Let_def)
next
  assume legal: "getLegalMoves (board n) (turn n) (pendingCapture n) \<noteq> []"
  then show "1 \<le> countPieces (board n) (turn n)"
    by (rule legal_has_piece)
next
  assume legal: "getLegalMoves (board n) (turn n) (pendingCapture n) \<noteq> []"
  then have "evaluatePosition Giveaway n (turn n) None
      = evaluateGiveawayPosition n (turn n) (getLegalMoves (board n) (turn n) (pendingCapture n))"
    by (simp add: evaluatePosition_def isGiveawayVariant_def)
  then show "evaluatePosition Giveaway n (turn n) None < WIN_SCORE"
    using legal_has_piece [OF legal] by (simp add: giveaway_heuristic_below)
next
  assume legal: "getLegalMoves (board n) (turn n) (pendingCapture n) \<noteq> []"
  let ?a = "foldl (giveawayScanStep (board n) (turn n))
              \<lparr>myMen = 0, myKings = 0, oppMen = 0, oppKings = 0, myProgress = 0,
               oppProgress = 0, myVictims = 0, oppVictims = 0\<rparr> allSquares"
  have mine: "myMen ?a + myKings ?a = int (countPieces (board n) (turn n))"
    by (simp add: giveaway_counts countPieces_def)
  have theirs: "oppMen ?a + oppKings ?a = int (countPieces (board n) (opposite (turn n)))"
    by (simp add: giveaway_counts_opp countPieces_def)
  from legal_has_piece [OF legal] have pos: "myMen ?a + myKings ?a \<noteq> 0"
    using mine by simp
  have ev: "evaluatePosition Giveaway n (turn n) None
      = evaluateGiveawayPosition n (turn n) (getLegalMoves (board n) (turn n) (pendingCapture n))"
    using legal by (simp add: evaluatePosition_def isGiveawayVariant_def)
  show "evaluatePosition Giveaway n (turn n) None
          = (if countPieces (board n) (opposite (turn n)) = 0 then - WIN_SCORE
             else evaluateGiveawayPosition n (turn n)
                    (getLegalMoves (board n) (turn n) (pendingCapture n)))"
  proof (cases "countPieces (board n) (opposite (turn n)) = 0")
    case True
    with theirs have "oppMen ?a + oppKings ?a = 0" by simp
    with pos True show ?thesis
      unfolding ev by (simp add: evaluateGiveawayPosition_def Let_def)
  next
    case False
    then show ?thesis
      unfolding ev by simp
  qed
qed

lemma quiet_moves:
  "getLegalMoves boardQuiet W None = [mkMove 4 3 3 2 [], mkMove 4 3 3 4 []]"
  by code_simp

theorem giveaway_win_score_witness:
  "pendingRowInside (pendingCapture blockedNode)
   \<and> getLegalMoves (board blockedNode) (turn blockedNode) (pendingCapture blockedNode) = []
   \<and> countPieces (board blockedNode) (turn blockedNode) = 1
   \<and> evaluatePosition Giveaway blockedNode (turn blockedNode) None = WIN_SCORE
   \<and> pendingRowInside (pendingCapture loneNode)
   \<and> getLegalMoves (board loneNode) (turn loneNode) (pendingCapture loneNode) \<noteq> []
   \<and> countPieces (board loneNode) B = 0
   \<and> evaluatePosition Giveaway loneNode B None = WIN_SCORE
   \<and> countPieces (board loneNode) (turn loneNode) = 1
   \<and> evaluatePosition Giveaway loneNode (turn loneNode) None = - WIN_SCORE
   \<and> evaluatePosition Giveaway loneNode (turn loneNode) None < WIN_SCORE"
proof -
  have p: "pendingRowInside (pendingCapture blockedNode)" "pendingRowInside (pendingCapture loneNode)"
    by (simp_all add: blockedNode_def loneNode_def pendingRowInside_def)
  have a: "getLegalMoves (board blockedNode) (turn blockedNode) (pendingCapture blockedNode) = []"
    by (simp add: blockedNode_def) code_simp
  have b: "countPieces (board blockedNode) (turn blockedNode) = 1"
    by (simp add: blockedNode_def) code_simp
  have c: "getLegalMoves (board loneNode) (turn loneNode) (pendingCapture loneNode) \<noteq> []"
    by (simp add: loneNode_def) code_simp
  have d: "countPieces (board loneNode) B = 0"
    by (simp add: loneNode_def) code_simp
  have e: "countPieces (board loneNode) (turn loneNode) = 1"
    by (simp add: loneNode_def) code_simp
  have t: "opposite (turn loneNode) = B"
    by (simp add: loneNode_def)
  from giveaway_win_score [OF p(1)] giveaway_win_score [OF p(2), of B] a b c d e t p
  show ?thesis by simp
qed

text \<open>
  C9 as stated fails: white, to move, has exactly one piece, and with white as the
  perspective the giveaway evaluation is -24, not the win score: the lone man can move.
\<close>

theorem giveaway_one_piece_counterexample:
  "countPieces (board quietGiveawayNode) (turn quietGiveawayNode) = 1
   \<and> evaluatePosition Giveaway quietGiveawayNode (turn quietGiveawayNode) None = - 24
   \<and> WIN_SCORE = 1000000"
proof -
  have e: "evaluatePosition Giveaway \<lparr>board = boardQuiet, hash = 0, turn = W,
             pendingCapture = None\<rparr> W None = - 24"
    by code_simp
  have t: "turn quietGiveawayNode = W" "board quietGiveawayNode = boardQuiet"
    by (simp_all add: quietGiveawayNode_def)
  have c: "countPieces boardQuiet W = 1"
    by code_simp
  show ?thesis
    unfolding t
    using c e evaluatePosition_hash [where v = Giveaway
        and n = "\<lparr>board = boardQuiet, hash = 0, turn = W, pendingCapture = None\<rparr>"
        and h = "computeBoardHash boardQuiet" and p = W and ms = None]
    by (simp add: quietGiveawayNode_def WIN_SCORE_def)
qed

text \<open>
  C10. When the state's side to move is not the side asked for, and it has a legal move,
  \<open>chooseBestMove\<close> returns no move, the score \<open>- WIN_SCORE\<close> and depth 0, whatever the
  mode, the difficulty, the clock and the random numbers: nothing is searched.
\<close>

theorem chooseBestMove_not_side_to_move:
  assumes "getLegalMoves (stateBoard g) (stateTurn g) (statePendingCapture g) \<noteq> []"
    and "stateTurn g \<noteq> side"
  shows "chooseBestMove w g side mode
           = Inr \<lparr>resultMove = None, resultScore = Fin (- 1000000), depthReached = 0\<rparr>"
  using assms
  by (cases "getLegalMoves (stateBoard g) (stateTurn g) (statePendingCapture g)")
     (simp_all add: chooseBestMove_def Let_def WIN_SCORE_def)

theorem chooseBestMove_not_side_to_move_witness:
  "getLegalMoves (stateBoard (initialState W)) (stateTurn (initialState W))
       (statePendingCapture (initialState W)) \<noteq> []
   \<and> stateTurn (initialState W) \<noteq> B
   \<and> chooseBestMove stillWorld (initialState W) B Hint
       = Inr \<lparr>resultMove = None, resultScore = Fin (- 1000000), depthReached = 0\<rparr>"
proof -
  have a: "getLegalMoves (stateBoard (initialState W)) (stateTurn (initialState W))
       (statePendingCapture (initialState W)) \<noteq> []"
    by code_simp
  have b: "stateTurn (initialState W) \<noteq> B"
    by (simp add: initialState_def)
  from chooseBestMove_not_side_to_move [OF a b] a b show ?thesis
    by simp
qed

lemma minimax_terminal:
  assumes "(nodes s + 1) AND 63 \<noteq> 0"
    and "getLegalMoves (board (node s)) (turn (node s)) (pendingCapture (node s)) = []"
  shows "minimax v now deadline rootColor d alpha beta s
           = (Inr (Fin (terminalScore v (turn (node s)) rootColor (int d))),
              s\<lparr>nodes := nodes s + 1\<rparr>)"
  using assms
  by (subst minimax.simps) (simp add: checkSearchDeadline_def Let_def)

text \<open>
  C5 on the code. \<open>minimax\<close> passes its remaining depth to \<open>terminalScore\<close>, and the
  remaining depth is larger nearer the root. Black, to move, has no piece; for white as the
  searching side this lost position of black scores 999997 where three plies remain and
  999999 where one ply remains, so the win found nearer the root scores lower.
\<close>

theorem terminal_score_by_remaining_depth:
  "fst (minimax Classic (\<lambda>k. 0) 100 W 3 NegInf PosInf terminalState) = Inr (Fin 999997)
   \<and> fst (minimax Classic (\<lambda>k. 0) 100 W 1 NegInf PosInf terminalState) = Inr (Fin 999999)
   \<and> fst (minimax Classic (\<lambda>k. 0) 100 B 3 NegInf PosInf terminalState) = Inr (Fin (- 999997))
   \<and> fst (minimax Classic (\<lambda>k. 0) 100 B 1 NegInf PosInf terminalState) = Inr (Fin (- 999999))"
proof -
  have a: "(nodes terminalState + 1) AND 63 \<noteq> 0"
    by (simp add: terminalState_def)
  have b: "getLegalMoves (board (node terminalState)) (turn (node terminalState))
             (pendingCapture (node terminalState)) = []"
    by (simp add: terminalState_def) code_simp
  have t: "turn (node terminalState) = B"
    by (simp add: terminalState_def)
  show ?thesis
    by (simp add: minimax_terminal [OF a b] t terminalScore_def isGiveawayVariant_def
          WIN_SCORE_def)
qed

lemma onlyTimeout_simps [simp]:
  "onlyTimeout (Inl e) \<longleftrightarrow> e = SearchTimeoutError" "onlyTimeout (Inr x)"
  by (simp_all add: onlyTimeout_def)


lemma set_orderMoves [simp]: "set (orderMoves b ms pm) = set ms"
  by (force simp: orderMoves_def Let_def)






lemma numLe_refl [simp]: "numLe a a"
  by (simp add: numLe_def)

























lemma noisy_src:
  "cell noisyBoard (row (fromSq stepEdge)) (col (fromSq stepEdge)) = Some whiteMan"
  "cell noisyBoard (row (fromSq stepCentre)) (col (fromSq stepCentre)) = Some whiteMan"
  by code_simp+

















end
